theory Spec2Isabelle
  imports Complex_Main "HOL-Library.Char_ord" "HOL-Library.List_Lexorder" "HOL-Library.Sublist"
begin

section \<open>Python values and step dictionaries\<close>

text \<open>
  A test step is a Python \<^verbatim>\<open>Dict[str, Any]\<close>. Its values are modelled by \<open>pyval\<close>;
  \<open>VObj r\<close> stands for any object that \<^verbatim>\<open>json.dumps\<close> cannot serialise, carrying its
  \<^verbatim>\<open>repr\<close>. A dictionary is an association list in insertion order, read with
  \<open>dict_get\<close> (Python's \<^verbatim>\<open>d.get(k)\<close>, \<open>None\<close> when the key is absent).
  Floats are left out of the value type.
\<close>

datatype pyval =
    VNone
  | VBool bool
  | VInt int
  | VStr string
  | VList "pyval list"
  | VDict "(string \<times> pyval) list"
  | VObj string

type_synonym step = "(string \<times> pyval) list"

definition dict_get :: "(string \<times> 'v) list \<Rightarrow> string \<Rightarrow> 'v option" where
  "dict_get d k = map_of d k"

definition dict_has :: "(string \<times> 'v) list \<Rightarrow> string \<Rightarrow> bool" where
  "dict_has d k = (map_of d k \<noteq> None)"

text \<open>Decimal printing of Python integers, as \<^verbatim>\<open>str(n)\<close> does.\<close>

definition digit_char :: "nat \<Rightarrow> char" where
  "digit_char d = char_of (48 + d)"

fun str_nat :: "nat \<Rightarrow> string" where
  "str_nat n = (if n < 10 then [digit_char n] else str_nat (n div 10) @ [digit_char (n mod 10)])"

declare str_nat.simps [simp del]

definition str_int :: "int \<Rightarrow> string" where
  "str_int i = (if i < 0 then CHR ''-'' # str_nat (nat (- i)) else str_nat (nat i))"

definition str_bool :: "bool \<Rightarrow> string" where
  "str_bool b = (if b then ''True'' else ''False'')"

section \<open>Run recorder (utils/db\_utils.py)\<close>

text \<open>
  The tables \<^verbatim>\<open>test_runs\<close> and \<^verbatim>\<open>run_steps\<close> as lists of rows in insertion order.
  Status columns are \<^verbatim>\<open>TEXT\<close>, so they stay strings. The timestamp columns are not
  modelled. Row ids come from \<^verbatim>\<open>AUTOINCREMENT\<close>: one more than the largest id handed
  out so far, which the sequence fields keep. Of the tables \<^verbatim>\<open>test_cases\<close> and
  \<^verbatim>\<open>test_steps\<close>, which \<^verbatim>\<open>add_test_case\<close> fills, only the ids of the stored cases
  and their sequence are kept: no driver reads the other columns during a run.
\<close>

record test_run_row =
  tr_id :: nat
  tr_test_case_id :: nat
  tr_status :: string
  tr_error_message :: "string option"

record run_step_row =
  rs_test_run_id :: nat
  rs_step_index :: nat
  rs_status :: string
  rs_message :: "string option"

record database =
  test_case_ids :: "nat list"
  test_cases_seq :: nat
  test_runs :: "test_run_row list"
  test_runs_seq :: nat
  run_steps :: "run_step_row list"

definition add_test_case :: "database \<Rightarrow> nat \<times> database" where
  "add_test_case db =
     (let i = test_cases_seq db + 1
      in (i, db\<lparr>test_case_ids := test_case_ids db @ [i], test_cases_seq := i\<rparr>))"

definition add_test_run :: "database \<Rightarrow> nat \<Rightarrow> string \<Rightarrow> nat \<times> database" where
  "add_test_run db test_case_id status =
     (let run_id = test_runs_seq db + 1 in
      (run_id,
       db\<lparr>test_runs := test_runs db @
                [\<lparr>tr_id = run_id, tr_test_case_id = test_case_id,
                  tr_status = status, tr_error_message = None\<rparr>],
          test_runs_seq := run_id\<rparr>))"

definition add_run_step ::
  "database \<Rightarrow> nat \<Rightarrow> nat \<Rightarrow> string \<Rightarrow> string option \<Rightarrow> database" where
  "add_run_step db test_run_id step_index status message =
     db\<lparr>run_steps := run_steps db @
          [\<lparr>rs_test_run_id = test_run_id, rs_step_index = step_index,
            rs_status = status, rs_message = message\<rparr>]\<rparr>"

definition get_run_steps :: "database \<Rightarrow> nat \<Rightarrow> run_step_row list" where
  "get_run_steps db test_run_id = filter (\<lambda>r. rs_test_run_id r = test_run_id) (run_steps db)"

text \<open>
  The statement \<^verbatim>\<open>UPDATE test_runs SET status = ?, ..., error_message = ? WHERE id = ?\<close>
  that every driver issues at the end of a run.
\<close>

definition update_test_run ::
  "database \<Rightarrow> nat \<Rightarrow> string \<Rightarrow> string option \<Rightarrow> database" where
  "update_test_run db run_id status err =
     db\<lparr>test_runs :=
          map (\<lambda>r. if tr_id r = run_id
                    then r\<lparr>tr_status := status, tr_error_message := err\<rparr> else r)
            (test_runs db)\<rparr>"

text \<open>The status stored for a run, as \<^verbatim>\<open>get_test_runs\<close> would report it.\<close>

definition run_status_of :: "database \<Rightarrow> nat \<Rightarrow> string option" where
  "run_status_of db run_id =
     map_option tr_status (find (\<lambda>r. tr_id r = run_id) (test_runs db))"

section \<open>Backend drivers: run\_test\_case\<close>

text \<open>
  What \<^verbatim>\<open>_execute_step\<close> does is the backend's business (browser, HTTP, device). It is a
  parameter: from the backend's state and the step it gives one of three outcomes, the
  ones the \<^verbatim>\<open>try\<close> statement of \<^verbatim>\<open>run_test_case\<close> tells apart, and the next state.
\<close>

datatype outcome =
    Returned
  | RaisedValueError string
  | RaisedException string

text \<open>
  A test case is a dictionary. Its \<^verbatim>\<open>id\<close>, and the four keys that
  \<^verbatim>\<open>Database.add_test_case\<close> reads with \<^verbatim>\<open>case[...]\<close>, are \<open>None\<close> when absent.
\<close>

record test_case =
  case_id :: "nat option"
  case_user_story :: "string option"
  case_test_set :: "string option"
  case_created_by :: "string option"
  case_source :: "string option"
  case_steps :: "step list"

text \<open>
  \<^verbatim>\<open>run_test_case\<close> can raise before it has recorded anything, and then there is no
  run to speak of. Without a truthy \<^verbatim>\<open>id\<close> it calls \<^verbatim>\<open>add_test_case\<close>, which raises
  \<^verbatim>\<open>KeyError\<close> when one of the four keys is missing, and whose \<^verbatim>\<open>INSERT\<close> statements
  fail on a step whose \<^verbatim>\<open>action\<close> is null or whose \<^verbatim>\<open>action\<close>, \<^verbatim>\<open>target\<close>,
  \<^verbatim>\<open>input_data\<close> or \<^verbatim>\<open>expected\<close> is a value SQLite cannot bind. With a truthy
  \<^verbatim>\<open>id\<close>, \<^verbatim>\<open>add_test_run\<close> fails on the foreign key when no stored case has this id.
  \<open>run_can_start\<close> says that none of this happens; the functions below are the run of a
  case that can start.
\<close>

definition bindable :: "pyval \<Rightarrow> bool" where
  "bindable v =
     (case v of
        VNone \<Rightarrow> True
      | VBool b \<Rightarrow> True
      | VInt i \<Rightarrow> - (2 ^ 63) \<le> i \<and> i < 2 ^ 63
      | VStr s \<Rightarrow> True
      | _ \<Rightarrow> False)"

definition step_storable :: "step \<Rightarrow> bool" where
  "step_storable step =
     ((case dict_get step ''action'' of None \<Rightarrow> True | Some v \<Rightarrow> v \<noteq> VNone \<and> bindable v) \<and>
      list_all (\<lambda>k. case dict_get step k of None \<Rightarrow> True | Some v \<Rightarrow> bindable v)
        [''target'', ''input_data'', ''expected''])"

definition add_test_case_returns :: "test_case \<Rightarrow> bool" where
  "add_test_case_returns c =
     (case_user_story c \<noteq> None \<and> case_test_set c \<noteq> None \<and>
      case_created_by c \<noteq> None \<and> case_source c \<noteq> None \<and>
      list_all step_storable (case_steps c))"

definition run_can_start :: "test_case \<Rightarrow> database \<Rightarrow> bool" where
  "run_can_start c db =
     (case case_id c of
        None \<Rightarrow> add_test_case_returns c
      | Some i \<Rightarrow> if i = 0 then add_test_case_returns c else i \<in> set (test_case_ids db))"

text \<open>
  The local variables of \<^verbatim>\<open>run_test_case\<close>. \<open>st_calls\<close> is a ghost variable: the
  indices of the steps for which \<^verbatim>\<open>_execute_step\<close> was invoked, in order.
\<close>

record 'w run_state =
  st_db :: database
  st_world :: 'w
  passed_steps :: nat
  failed_steps :: nat
  skipped_steps :: nat
  error_message :: "string option"
  st_calls :: "nat list"

record 'w run_result =
  rr_run_id :: nat
  rr_db :: database
  rr_world :: 'w
  rr_calls :: "nat list"

text \<open>
  The message of the \<^verbatim>\<open>ValueError\<close> raised for an unmet dependency,
  \<^verbatim>\<open>f"Step depends_on {dep} which did not pass"\<close>.
\<close>

definition dep_message :: "string \<Rightarrow> string" where
  "dep_message d = ''Step depends_on '' @ d @ '' which did not pass''"

text \<open>
  The inner loop over \<^verbatim>\<open>prev_results\<close>: it raises as soon as a row has the dependency's
  index and the status failed or skipped. \<^verbatim>\<open>isinstance(dep, int)\<close> holds for integers and
  for booleans, and \<^verbatim>\<open>True == 1\<close>, \<^verbatim>\<open>False == 0\<close>.
\<close>

definition dep_int :: "pyval \<Rightarrow> int option" where
  "dep_int v = (case v of VInt n \<Rightarrow> Some n
                        | VBool b \<Rightarrow> Some (if b then 1 else 0)
                        | _ \<Rightarrow> None)"

definition dep_str :: "pyval \<Rightarrow> string" where
  "dep_str v = (case v of VInt n \<Rightarrow> str_int n | VBool b \<Rightarrow> str_bool b | _ \<Rightarrow> [])"

text \<open>
  The three drivers below are transcribed one by one from their own source files. The
  calls that open and close the browser or device session (\<^verbatim>\<open>_ensure_page\<close>,
  \<^verbatim>\<open>close\<close>, \<^verbatim>\<open>_ensure_driver\<close>, \<^verbatim>\<open>quit\<close>) touch neither the database nor the
  counters; the backend state given to a run is the one after the session is open.
\<close>

subsection \<open>web/web\_driver.py\<close>

definition WebDriver_step ::
  "('w \<Rightarrow> step \<Rightarrow> outcome \<times> 'w) \<Rightarrow> nat \<Rightarrow> nat \<Rightarrow> step \<Rightarrow> 'w run_state \<Rightarrow> 'w run_state" where
  "WebDriver_step execute_step run_id idx step s =
     (let dep = dict_get step ''depends_on'';
          prev_results = (if run_id \<noteq> 0 then get_run_steps (st_db s) run_id else []);
          unmet = (case dep of
                     None \<Rightarrow> False
                   | Some v \<Rightarrow>
                       (case dep_int v of
                          None \<Rightarrow> False
                        | Some n \<Rightarrow>
                            list_ex (\<lambda>r. int (rs_step_index r) = n \<and>
                                         (rs_status r = ''failed'' \<or> rs_status r = ''skipped''))
                              prev_results));
          (res, w, calls) =
            (if unmet then (RaisedValueError (dep_message (dep_str (the dep))),
                            st_world s, st_calls s)
             else (let (r, w') = execute_step (st_world s) step
                   in (r, w', st_calls s @ [idx])));
          s1 = s\<lparr>st_world := w, st_calls := calls\<rparr>
      in case res of
           RaisedValueError ve \<Rightarrow>
             s1\<lparr>st_db := add_run_step (st_db s) run_id idx ''skipped'' (Some ve),
                skipped_steps := skipped_steps s + 1\<rparr>
         | RaisedException exc \<Rightarrow>
             s1\<lparr>st_db := add_run_step (st_db s) run_id idx ''failed'' (Some exc),
                failed_steps := failed_steps s + 1,
                error_message := Some exc\<rparr>
         | Returned \<Rightarrow>
             s1\<lparr>st_db := add_run_step (st_db s) run_id idx ''passed'' None,
                passed_steps := passed_steps s + 1\<rparr>)"

fun WebDriver_steps ::
  "('w \<Rightarrow> step \<Rightarrow> outcome \<times> 'w) \<Rightarrow> nat \<Rightarrow> nat \<Rightarrow> step list \<Rightarrow> 'w run_state \<Rightarrow> 'w run_state" where
  "WebDriver_steps execute_step run_id idx [] s = s"
| "WebDriver_steps execute_step run_id idx (step # rest) s =
     WebDriver_steps execute_step run_id (idx + 1) rest
       (WebDriver_step execute_step run_id idx step s)"

definition WebDriver_run_test_case ::
  "('w \<Rightarrow> step \<Rightarrow> outcome \<times> 'w) \<Rightarrow> test_case \<Rightarrow> database \<Rightarrow> 'w \<Rightarrow> 'w run_result" where
  "WebDriver_run_test_case execute_step c db0 w0 =
     (let (test_case_id, db1) =
            (case case_id c of
               None \<Rightarrow> add_test_case db0
             | Some i \<Rightarrow> if i = 0 then add_test_case db0 else (i, db0));
          (run_id, db2) = add_test_run db1 test_case_id ''running'';
          s = WebDriver_steps execute_step run_id 0 (case_steps c)
                \<lparr>st_db = db2, st_world = w0, passed_steps = 0, failed_steps = 0,
                 skipped_steps = 0, error_message = None, st_calls = []\<rparr>;
          executed = passed_steps s + failed_steps s;
          overall_status =
            (if executed = 0 \<and> skipped_steps s > 0 then ''skipped''
             else if failed_steps s = 0 \<and> skipped_steps s = 0 then ''passed''
             else if failed_steps s = executed then ''failed''
             else ''partial'')
      in \<lparr>rr_run_id = run_id,
          rr_db = update_test_run (st_db s) run_id overall_status (error_message s),
          rr_world = st_world s,
          rr_calls = st_calls s\<rparr>)"

subsection \<open>api/api\_driver.py\<close>

definition APIDriver_step ::
  "('w \<Rightarrow> step \<Rightarrow> outcome \<times> 'w) \<Rightarrow> nat \<Rightarrow> nat \<Rightarrow> step \<Rightarrow> 'w run_state \<Rightarrow> 'w run_state" where
  "APIDriver_step execute_step run_id idx step s =
     (let dep = dict_get step ''depends_on'';
          prev_results = (if run_id \<noteq> 0 then get_run_steps (st_db s) run_id else []);
          unmet = (case dep of
                     None \<Rightarrow> False
                   | Some v \<Rightarrow>
                       (case dep_int v of
                          None \<Rightarrow> False
                        | Some n \<Rightarrow>
                            list_ex (\<lambda>r. int (rs_step_index r) = n \<and>
                                         (rs_status r = ''failed'' \<or> rs_status r = ''skipped''))
                              prev_results));
          (res, w, calls) =
            (if unmet then (RaisedValueError (dep_message (dep_str (the dep))),
                            st_world s, st_calls s)
             else (let (r, w') = execute_step (st_world s) step
                   in (r, w', st_calls s @ [idx])));
          s1 = s\<lparr>st_world := w, st_calls := calls\<rparr>
      in case res of
           RaisedValueError ve \<Rightarrow>
             s1\<lparr>st_db := add_run_step (st_db s) run_id idx ''skipped'' (Some ve),
                skipped_steps := skipped_steps s + 1\<rparr>
         | RaisedException exc \<Rightarrow>
             s1\<lparr>st_db := add_run_step (st_db s) run_id idx ''failed'' (Some exc),
                failed_steps := failed_steps s + 1,
                error_message := Some exc\<rparr>
         | Returned \<Rightarrow>
             s1\<lparr>st_db := add_run_step (st_db s) run_id idx ''passed'' None,
                passed_steps := passed_steps s + 1\<rparr>)"

fun APIDriver_steps ::
  "('w \<Rightarrow> step \<Rightarrow> outcome \<times> 'w) \<Rightarrow> nat \<Rightarrow> nat \<Rightarrow> step list \<Rightarrow> 'w run_state \<Rightarrow> 'w run_state" where
  "APIDriver_steps execute_step run_id idx [] s = s"
| "APIDriver_steps execute_step run_id idx (step # rest) s =
     APIDriver_steps execute_step run_id (idx + 1) rest
       (APIDriver_step execute_step run_id idx step s)"

definition APIDriver_run_test_case ::
  "('w \<Rightarrow> step \<Rightarrow> outcome \<times> 'w) \<Rightarrow> test_case \<Rightarrow> database \<Rightarrow> 'w \<Rightarrow> 'w run_result" where
  "APIDriver_run_test_case execute_step c db0 w0 =
     (let (test_case_id, db1) =
            (case case_id c of
               None \<Rightarrow> add_test_case db0
             | Some i \<Rightarrow> if i = 0 then add_test_case db0 else (i, db0));
          (run_id, db2) = add_test_run db1 test_case_id ''running'';
          s = APIDriver_steps execute_step run_id 0 (case_steps c)
                \<lparr>st_db = db2, st_world = w0, passed_steps = 0, failed_steps = 0,
                 skipped_steps = 0, error_message = None, st_calls = []\<rparr>;
          executed = passed_steps s + failed_steps s;
          overall_status =
            (if executed = 0 \<and> skipped_steps s > 0 then ''skipped''
             else if failed_steps s = 0 \<and> skipped_steps s = 0 then ''passed''
             else if failed_steps s = executed then ''failed''
             else ''partial'')
      in \<lparr>rr_run_id = run_id,
          rr_db = update_test_run (st_db s) run_id overall_status (error_message s),
          rr_world = st_world s,
          rr_calls = st_calls s\<rparr>)"

subsection \<open>mobile/mobile\_driver.py\<close>

definition MobileDriver_step ::
  "('w \<Rightarrow> step \<Rightarrow> outcome \<times> 'w) \<Rightarrow> nat \<Rightarrow> nat \<Rightarrow> step \<Rightarrow> 'w run_state \<Rightarrow> 'w run_state" where
  "MobileDriver_step execute_step run_id idx step s =
     (let dep = dict_get step ''depends_on'';
          prev_results = (if run_id \<noteq> 0 then get_run_steps (st_db s) run_id else []);
          unmet = (case dep of
                     None \<Rightarrow> False
                   | Some v \<Rightarrow>
                       (case dep_int v of
                          None \<Rightarrow> False
                        | Some n \<Rightarrow>
                            list_ex (\<lambda>r. int (rs_step_index r) = n \<and>
                                         (rs_status r = ''failed'' \<or> rs_status r = ''skipped''))
                              prev_results));
          (res, w, calls) =
            (if unmet then (RaisedValueError (dep_message (dep_str (the dep))),
                            st_world s, st_calls s)
             else (let (r, w') = execute_step (st_world s) step
                   in (r, w', st_calls s @ [idx])));
          s1 = s\<lparr>st_world := w, st_calls := calls\<rparr>
      in case res of
           RaisedValueError ve \<Rightarrow>
             s1\<lparr>st_db := add_run_step (st_db s) run_id idx ''skipped'' (Some ve),
                skipped_steps := skipped_steps s + 1\<rparr>
         | RaisedException exc \<Rightarrow>
             s1\<lparr>st_db := add_run_step (st_db s) run_id idx ''failed'' (Some exc),
                failed_steps := failed_steps s + 1,
                error_message := Some exc\<rparr>
         | Returned \<Rightarrow>
             s1\<lparr>st_db := add_run_step (st_db s) run_id idx ''passed'' None,
                passed_steps := passed_steps s + 1\<rparr>)"

fun MobileDriver_steps ::
  "('w \<Rightarrow> step \<Rightarrow> outcome \<times> 'w) \<Rightarrow> nat \<Rightarrow> nat \<Rightarrow> step list \<Rightarrow> 'w run_state \<Rightarrow> 'w run_state" where
  "MobileDriver_steps execute_step run_id idx [] s = s"
| "MobileDriver_steps execute_step run_id idx (step # rest) s =
     MobileDriver_steps execute_step run_id (idx + 1) rest
       (MobileDriver_step execute_step run_id idx step s)"

definition MobileDriver_run_test_case ::
  "('w \<Rightarrow> step \<Rightarrow> outcome \<times> 'w) \<Rightarrow> test_case \<Rightarrow> database \<Rightarrow> 'w \<Rightarrow> 'w run_result" where
  "MobileDriver_run_test_case execute_step c db0 w0 =
     (let (test_case_id, db1) =
            (case case_id c of
               None \<Rightarrow> add_test_case db0
             | Some i \<Rightarrow> if i = 0 then add_test_case db0 else (i, db0));
          (run_id, db2) = add_test_run db1 test_case_id ''running'';
          s = MobileDriver_steps execute_step run_id 0 (case_steps c)
                \<lparr>st_db = db2, st_world = w0, passed_steps = 0, failed_steps = 0,
                 skipped_steps = 0, error_message = None, st_calls = []\<rparr>;
          executed = passed_steps s + failed_steps s;
          overall_status =
            (if executed = 0 \<and> skipped_steps s > 0 then ''skipped''
             else if failed_steps s = 0 \<and> skipped_steps s = 0 then ''passed''
             else if failed_steps s = executed then ''failed''
             else ''partial'')
      in \<lparr>rr_run_id = run_id,
          rr_db = update_test_run (st_db s) run_id overall_status (error_message s),
          rr_world = st_world s,
          rr_calls = st_calls s\<rparr>)"

subsection \<open>Aggregate status as the specification words it\<close>

text \<open>
  The rows a run appended to \<^verbatim>\<open>run_steps\<close>, the number of them with a given status,
  and the derivation of section 4.1 of the specification from the counts P, F and S.
\<close>

definition new_rows :: "database \<Rightarrow> database \<Rightarrow> run_step_row list" where
  "new_rows db db' = drop (length (run_steps db)) (run_steps db')"

definition count_status :: "string \<Rightarrow> run_step_row list \<Rightarrow> nat" where
  "count_status st rows = length (filter (\<lambda>r. rs_status r = st) rows)"

definition spec_aggregate_status :: "nat \<Rightarrow> nat \<Rightarrow> nat \<Rightarrow> string" where
  "spec_aggregate_status P F S =
     (let E = P + F in
      if E = 0 \<and> S > 0 then ''skipped''
      else if F = 0 \<and> S = 0 then ''passed''
      else if F = E then ''failed''
      else ''partial'')"

text \<open>The test of the dependency check, as one predicate on the database of the moment.\<close>

definition dep_unmet :: "database \<Rightarrow> nat \<Rightarrow> step \<Rightarrow> bool" where
  "dep_unmet db run_id step =
     (case dict_get step ''depends_on'' of
        None \<Rightarrow> False
      | Some v \<Rightarrow>
          (case dep_int v of
             None \<Rightarrow> False
           | Some n \<Rightarrow>
               run_id \<noteq> 0 \<and>
               list_ex (\<lambda>r. int (rs_step_index r) = n \<and>
                            (rs_status r = ''failed'' \<or> rs_status r = ''skipped''))
                 (get_run_steps db run_id)))"

section \<open>Strings and JSON text\<close>

text \<open>
  Strings are lists of \<open>char\<close>. The methods \<^verbatim>\<open>str.strip\<close>, \<^verbatim>\<open>str.lower\<close> and
  \<^verbatim>\<open>str.title\<close> belong to Python's library and know every cased and every white-space
  character of Unicode: the functions that call them take them as parameters. What the
  three methods do on ASCII text is defined here, for the concrete inputs further down,
  which are ASCII.
\<close>

definition is_upper :: "char \<Rightarrow> bool" where
  "is_upper c = (CHR ''A'' \<le> c \<and> c \<le> CHR ''Z'')"

definition is_lower :: "char \<Rightarrow> bool" where
  "is_lower c = (CHR ''a'' \<le> c \<and> c \<le> CHR ''z'')"

definition lower_char :: "char \<Rightarrow> char" where
  "lower_char c = (if is_upper c then char_of (of_char c + (32::nat)) else c)"

definition upper_char :: "char \<Rightarrow> char" where
  "upper_char c = (if is_lower c then char_of (of_char c - (32::nat)) else c)"

definition ascii_lower :: "string \<Rightarrow> string" where
  "ascii_lower s = map lower_char s"

text \<open>
  On ASCII text \<^verbatim>\<open>str.title()\<close> lower-cases a letter that follows a letter and
  upper-cases any other letter.
\<close>

fun title_from :: "bool \<Rightarrow> string \<Rightarrow> string" where
  "title_from previous_is_cased [] = []"
| "title_from previous_is_cased (c # cs) =
     (if is_upper c \<or> is_lower c
        then (if previous_is_cased then lower_char c else upper_char c) # title_from True cs
      else c # title_from False cs)"

definition ascii_title :: "string \<Rightarrow> string" where
  "ascii_title s = title_from False s"

text \<open>On ASCII text \<^verbatim>\<open>str.strip()\<close> removes the ASCII white space at both ends.\<close>

definition is_space :: "char \<Rightarrow> bool" where
  "is_space c = ((of_char c :: nat) \<in> {9, 10, 11, 12, 13, 28, 29, 30, 31, 32})"

definition ascii_strip :: "string \<Rightarrow> string" where
  "ascii_strip s = rev (dropWhile is_space (rev (dropWhile is_space s)))"

text \<open>\<^verbatim>\<open>needle in haystack\<close> on strings: the needle occurs as a contiguous block.\<close>

fun contains :: "string \<Rightarrow> string \<Rightarrow> bool" where
  "contains [] needle = (needle = [])"
| "contains (c # cs) needle = (prefix needle (c # cs) \<or> contains cs needle)"

text \<open>\<^verbatim>\<open>sep.join(parts)\<close>.\<close>

fun join :: "string \<Rightarrow> string list \<Rightarrow> string" where
  "join sep [] = []"
| "join sep [x] = x"
| "join sep (x # y # ys) = x @ sep @ join sep (y # ys)"

text \<open>
  \<^verbatim>\<open>json.dumps(v, sort_keys=sk, ensure_ascii=ea)\<close> with the default separators. The
  result is \<open>None\<close> where Python raises \<^verbatim>\<open>TypeError\<close> (an object that is not
  serialisable). A string is quoted; the quote, the backslash and the control characters
  are escaped, and with \<^verbatim>\<open>ensure_ascii\<close> every character outside the printable ASCII
  range is written \<^verbatim>\<open>\u00XX\<close>, a \<open>char\<close> being read as a code point below 256.
\<close>

definition hex_digit :: "nat \<Rightarrow> char" where
  "hex_digit d = (if d < 10 then char_of (48 + d) else char_of (87 + d))"

definition json_escape_char :: "bool \<Rightarrow> char \<Rightarrow> string" where
  "json_escape_char ensure_ascii c =
     (let n = (of_char c :: nat) in
      if c = CHR ''\"'' then [CHR 0x5C, CHR ''\"'']
      else if c = CHR 0x5C then [CHR 0x5C, CHR 0x5C]
      else if n = 10 then [CHR 0x5C, CHR ''n'']
      else if n = 13 then [CHR 0x5C, CHR ''r'']
      else if n = 9 then [CHR 0x5C, CHR ''t'']
      else if n = 8 then [CHR 0x5C, CHR ''b'']
      else if n = 12 then [CHR 0x5C, CHR ''f'']
      else if n < 32 \<or> (ensure_ascii \<and> n > 126)
        then [CHR 0x5C, CHR ''u'', CHR ''0'', CHR ''0'', hex_digit (n div 16), hex_digit (n mod 16)]
      else [c])"

definition json_string :: "bool \<Rightarrow> string \<Rightarrow> string" where
  "json_string ensure_ascii s =
     [CHR ''\"''] @ concat (map (json_escape_char ensure_ascii) s) @ [CHR ''\"'']"

definition sequence_option :: "'a option list \<Rightarrow> 'a list option" where
  "sequence_option xs = (if list_all (\<lambda>x. x \<noteq> None) xs then Some (map the xs) else None)"

fun json_dumps :: "bool \<Rightarrow> bool \<Rightarrow> pyval \<Rightarrow> string option"
  and json_items :: "bool \<Rightarrow> bool \<Rightarrow> pyval list \<Rightarrow> string option list"
  and json_fields :: "bool \<Rightarrow> bool \<Rightarrow> (string \<times> pyval) list \<Rightarrow> (string \<times> string option) list"
where
  "json_dumps sk ea VNone = Some ''null''"
| "json_dumps sk ea (VBool b) = Some (if b then ''true'' else ''false'')"
| "json_dumps sk ea (VInt i) = Some (str_int i)"
| "json_dumps sk ea (VStr s) = Some (json_string ea s)"
| "json_dumps sk ea (VList vs) =
     (case sequence_option (json_items sk ea vs) of
        None \<Rightarrow> None
      | Some parts \<Rightarrow> Some (''['' @ join '', '' parts @ '']''))"
| "json_dumps sk ea (VDict kvs) =
     (let fields = json_fields sk ea kvs;
          ordered = (if sk then sort_key fst fields else fields)
      in case sequence_option (map snd ordered) of
           None \<Rightarrow> None
         | Some parts \<Rightarrow>
             Some (''{'' @ join '', ''
                     (map (\<lambda>(k, p). json_string ea k @ '': '' @ p) (zip (map fst ordered) parts))
                   @ ''}''))"
| "json_dumps sk ea (VObj r) = None"
| "json_items sk ea [] = []"
| "json_items sk ea (v # vs) = json_dumps sk ea v # json_items sk ea vs"
| "json_fields sk ea [] = []"
| "json_fields sk ea ((k, v) # kvs) = (k, json_dumps sk ea v) # json_fields sk ea kvs"

text \<open>
  \<^verbatim>\<open>str(v)\<close>, which an f-string applies to a value. On a string it is the string
  itself. On a list, a dictionary or another object it is the \<^verbatim>\<open>repr\<close>, which is left
  as a parameter.
\<close>

definition py_str :: "(pyval \<Rightarrow> string) \<Rightarrow> pyval \<Rightarrow> string" where
  "py_str repr v =
     (case v of
        VStr s \<Rightarrow> s
      | VInt i \<Rightarrow> str_int i
      | VBool b \<Rightarrow> str_bool b
      | VNone \<Rightarrow> ''None''
      | _ \<Rightarrow> repr v)"

section \<open>Locator store\<close>

text \<open>
  The table \<^verbatim>\<open>locators\<close> as a list of rows in insertion order, with the
  \<^verbatim>\<open>AUTOINCREMENT\<close> sequence. \<^verbatim>\<open>is_active\<close> is an \<^verbatim>\<open>INTEGER\<close> column holding 0 or 1.
  Both repositories have the same schema, with the partial unique index
  \<^verbatim>\<open>idx_locators_active\<close> on \<^verbatim>\<open>(context, step_key, is_active) WHERE is_active = 1\<close>.
\<close>

record locator_row =
  loc_id :: nat
  loc_context :: string
  loc_step_key :: string
  locator_type :: string
  locator_value :: string
  version :: int
  is_active :: int
  created_at :: string
  updated_at :: string

record locator_store =
  locators :: "locator_row list"
  locators_seq :: nat

datatype py_error =
    ValueError string
  | TypeError string
  | OverflowError string
  | IntegrityError string
  | JSONDecodeError string
  | OtherError string

text \<open>Python truthiness of \<^verbatim>\<open>locator.get(k)\<close> on a \<^verbatim>\<open>Dict[str, str]\<close>.\<close>

definition falsy :: "string option \<Rightarrow> bool" where
  "falsy v = (case v of None \<Rightarrow> True | Some s \<Rightarrow> s = [])"

definition same_key :: "string \<Rightarrow> string \<Rightarrow> locator_row \<Rightarrow> bool" where
  "same_key context step_key r = (loc_context r = context \<and> loc_step_key r = step_key)"

text \<open>
  \<^verbatim>\<open>UPDATE locators SET is_active = 0, updated_at = ? WHERE context = ? AND step_key = ?
  AND is_active = 1\<close>.
\<close>

definition deactivate :: "string \<Rightarrow> string \<Rightarrow> string \<Rightarrow> locator_row list \<Rightarrow> locator_row list" where
  "deactivate now context step_key rows =
     map (\<lambda>r. if same_key context step_key r \<and> is_active r = 1
               then r\<lparr>is_active := 0, updated_at := now\<rparr> else r) rows"

text \<open>
  \<^verbatim>\<open>SELECT MAX(version) FROM locators WHERE context = ? AND step_key = ?\<close>: \<open>None\<close>
  stands for the \<^verbatim>\<open>NULL\<close> of an empty selection.
\<close>

definition max_version :: "string \<Rightarrow> string \<Rightarrow> locator_row list \<Rightarrow> int option" where
  "max_version context step_key rows =
     (case map version (filter (same_key context step_key) rows) of
        [] \<Rightarrow> None
      | v # vs \<Rightarrow> Some (fold max vs v))"

text \<open>
  The \<^verbatim>\<open>INSERT\<close>. SQLite refuses an integer beyond 64 bits (\<^verbatim>\<open>OverflowError\<close> when the
  parameter is bound) and a second active row for the key (\<^verbatim>\<open>IntegrityError\<close> from the
  unique index). When a statement raises, the statements before it have run on the
  connection, which the returned store shows.
\<close>

definition insert_locator ::
  "string \<Rightarrow> string \<Rightarrow> string \<Rightarrow> string \<Rightarrow> int \<Rightarrow> string \<Rightarrow> locator_store
     \<Rightarrow> py_error option \<times> locator_store" where
  "insert_locator context step_key ltype lvalue next_version now st =
     (if next_version > 2 ^ 63 - 1
        then (Some (OverflowError ''Python int too large to convert to SQLite INTEGER''), st)
      else if list_ex (\<lambda>r. same_key context step_key r \<and> is_active r = 1) (locators st)
        then (Some (IntegrityError ''UNIQUE constraint failed''), st)
      else (None,
            st\<lparr>locators := locators st @
                  [\<lparr>loc_id = locators_seq st + 1, loc_context = context,
                    loc_step_key = step_key, locator_type = ltype, locator_value = lvalue,
                    version = next_version, is_active = 1,
                    created_at = now, updated_at = now\<rparr>],
               locators_seq := locators_seq st + 1\<rparr>))"

subsection \<open>src/automation\_framework/utils/locator\_repo.py\<close>

text \<open>
  \<^verbatim>\<open>LocatorRepo.add_locator\<close> reads the clock twice: \<open>now1\<close> for the update and
  \<open>now2\<close> for the insertion.
\<close>

definition LocatorRepo_add_locator ::
  "string \<Rightarrow> string \<Rightarrow> string \<Rightarrow> string \<Rightarrow> (string \<times> string) list \<Rightarrow> locator_store
     \<Rightarrow> py_error option \<times> locator_store" where
  "LocatorRepo_add_locator now1 now2 context step_key locator st =
     (let locator_type = dict_get locator ''type'';
          locator_value = dict_get locator ''value''
      in if falsy locator_type \<or> falsy locator_value
           then (Some (ValueError ''Locator must have 'type' and 'value' fields''), st)
         else
           (let st1 = st\<lparr>locators := deactivate now1 context step_key (locators st)\<rparr>;
                row = max_version context step_key (locators st1);
                next_version = (case row of Some m \<Rightarrow> m + 1 | None \<Rightarrow> 1)
            in insert_locator context step_key (the locator_type) (the locator_value)
                 next_version now2 st1))"

definition LocatorRepo_get_locator ::
  "string \<Rightarrow> string \<Rightarrow> locator_store \<Rightarrow> (string \<times> string) option" where
  "LocatorRepo_get_locator context step_key st =
     (case filter (\<lambda>r. same_key context step_key r \<and> is_active r = 1) (locators st) of
        [] \<Rightarrow> None
      | r # rs \<Rightarrow>
          (let best = fold (\<lambda>x b. if version x > version b then x else b) rs r
           in Some (locator_type best, locator_value best)))"

text \<open>
  \<^verbatim>\<open>LocatorRepo.compute_step_key\<close>. The keys of a step are those of its association
  list, which holds each key once.
\<close>

fun first_present :: "string list \<Rightarrow> step \<Rightarrow> pyval option" where
  "first_present [] step = None"
| "first_present (key # keys) step =
     (if dict_has step key then dict_get step key else first_present keys step)"

definition serialise_or_str :: "(pyval \<Rightarrow> string) \<Rightarrow> pyval \<Rightarrow> pyval \<Rightarrow> string" where
  "serialise_or_str repr to_dump to_str =
     (case json_dumps True True to_dump of
        Some text \<Rightarrow> text
      | None \<Rightarrow> py_str repr to_str)"

definition sorted_step :: "step \<Rightarrow> step" where
  "sorted_step step = map (\<lambda>k. (k, the (dict_get step k))) (sort (map fst step))"

definition LocatorRepo_compute_step_key :: "(pyval \<Rightarrow> string) \<Rightarrow> step \<Rightarrow> string" where
  "LocatorRepo_compute_step_key repr step =
     (let action = py_str repr (case dict_get step ''action'' of
                                  None \<Rightarrow> VStr ''unknown'' | Some a \<Rightarrow> a)
      in if dict_has step ''selector''
           then action @ '':'' @ py_str repr (the (dict_get step ''selector''))
         else if dict_has step ''locator''
           then action @ '':'' @
                serialise_or_str repr (the (dict_get step ''locator''))
                  (the (dict_get step ''locator''))
         else
           (case first_present [''element'', ''label'', ''text'', ''value'', ''placeholder''] step of
              Some v \<Rightarrow> action @ '':'' @ py_str repr v
            | None \<Rightarrow>
                action @ '':'' @ serialise_or_str repr (VDict (sorted_step step)) (VDict step)))"

subsection \<open>enterprise\_automation\_framework\_final/utils/locator\_repository.py\<close>

text \<open>\<^verbatim>\<open>LocatorRepository.add_locator\<close> reads the clock once.\<close>

definition LocatorRepository_add_locator ::
  "string \<Rightarrow> string \<Rightarrow> string \<Rightarrow> (string \<times> string) list \<Rightarrow> locator_store
     \<Rightarrow> py_error option \<times> locator_store" where
  "LocatorRepository_add_locator now context step_key locator st =
     (let locator_type = dict_get locator ''type'';
          locator_value = dict_get locator ''value''
      in if falsy locator_type \<or> falsy locator_value
           then (Some (ValueError ''Locator must have 'type' and 'value' fields''), st)
         else
           (let st1 = st\<lparr>locators := deactivate now context step_key (locators st)\<rparr>;
                row = max_version context step_key (locators st1);
                next_version = (case row of Some m \<Rightarrow> m + 1 | None \<Rightarrow> 1)
            in insert_locator context step_key (the locator_type) (the locator_value)
                 next_version now st1))"

definition LocatorRepository_get_locator ::
  "string \<Rightarrow> string \<Rightarrow> locator_store \<Rightarrow> (string \<times> string) option" where
  "LocatorRepository_get_locator context step_key st =
     (case filter (\<lambda>r. same_key context step_key r \<and> is_active r = 1) (locators st) of
        [] \<Rightarrow> None
      | r # rs \<Rightarrow>
          (let best = fold (\<lambda>x b. if version x > version b then x else b) rs r
           in Some (locator_type best, locator_value best)))"

definition LocatorRepository_compute_step_key :: "(pyval \<Rightarrow> string) \<Rightarrow> step \<Rightarrow> string" where
  "LocatorRepository_compute_step_key repr step =
     (let action = py_str repr (case dict_get step ''action'' of
                                  None \<Rightarrow> VStr ''unknown'' | Some a \<Rightarrow> a)
      in if dict_has step ''selector''
           then action @ '':'' @ py_str repr (the (dict_get step ''selector''))
         else if dict_has step ''locator''
           then action @ '':'' @
                serialise_or_str repr (the (dict_get step ''locator''))
                  (the (dict_get step ''locator''))
         else
           (case first_present
                   [''element'', ''label'', ''text'', ''value'', ''placeholder'', ''target''] step of
              Some v \<Rightarrow> action @ '':'' @ py_str repr v
            | None \<Rightarrow>
                action @ '':'' @ serialise_or_str repr (VDict (sorted_step step)) (VDict step)))"

subsection \<open>The step key as the specification words it\<close>

text \<open>
  Section 4.7: an explicit selector, else the locator serialised canonically, else the
  first present of element, label, text, value, placeholder, target, else the whole step
  serialised with sorted keys.
\<close>

definition spec_step_key_fields :: "string list" where
  "spec_step_key_fields = [''element'', ''label'', ''text'', ''value'', ''placeholder'', ''target'']"

definition spec_compute_step_key :: "(pyval \<Rightarrow> string) \<Rightarrow> step \<Rightarrow> string" where
  "spec_compute_step_key repr step =
     (let action = py_str repr (case dict_get step ''action'' of
                                  None \<Rightarrow> VStr ''unknown'' | Some a \<Rightarrow> a);
          descriptor =
            (case dict_get step ''selector'' of
               Some sel \<Rightarrow> py_str repr sel
             | None \<Rightarrow>
                 (case dict_get step ''locator'' of
                    Some loc \<Rightarrow> serialise_or_str repr loc loc
                  | None \<Rightarrow>
                      (case find (dict_has step) spec_step_key_fields of
                         Some k \<Rightarrow> py_str repr (the (dict_get step k))
                       | None \<Rightarrow> serialise_or_str repr (VDict (sorted_step step)) (VDict step))))
      in action @ '':'' @ descriptor)"

subsection \<open>What an insertion must leave behind\<close>

text \<open>
  The columns of a row that an insertion of a later version may not touch, and the
  state the specification asks for after \<^verbatim>\<open>add_locator(context, step_key, locator)\<close>
  has returned: one more row; the last row is the only active one for the key and
  holds the new locator; its version is 1 with no earlier row for the key and one more
  than the largest earlier version otherwise; every earlier row is still there, and
  those of the key are inactive. As in every query of the repositories, a row is active
  when its \<^verbatim>\<open>is_active\<close> is 1.
\<close>

definition row_identity ::
  "locator_row \<Rightarrow> nat \<times> string \<times> string \<times> string \<times> string \<times> int \<times> string" where
  "row_identity r =
     (loc_id r, loc_context r, loc_step_key r, locator_type r, locator_value r,
      version r, created_at r)"

definition spec_add_locator_post ::
  "string \<Rightarrow> string \<Rightarrow> (string \<times> string) list \<Rightarrow> locator_store \<Rightarrow> locator_store \<Rightarrow> bool" where
  "spec_add_locator_post context step_key locator st st' =
     (let old = locators st; new = last (locators st') in
      length (locators st') = length old + 1 \<and>
      filter (\<lambda>r. same_key context step_key r \<and> is_active r = 1) (locators st') = [new] \<and>
      same_key context step_key new \<and>
      dict_get locator ''type'' = Some (locator_type new) \<and>
      dict_get locator ''value'' = Some (locator_value new) \<and>
      version new =
        (if filter (same_key context step_key) old = [] then 1
         else Max (set (map version (filter (same_key context step_key) old))) + 1) \<and>
      map row_identity (butlast (locators st')) = map row_identity old \<and>
      list_all (\<lambda>r. same_key context step_key r \<longrightarrow> is_active r \<noteq> 1) (butlast (locators st')) \<and>
      filter (\<lambda>r. \<not> same_key context step_key r) (butlast (locators st')) =
        filter (\<lambda>r. \<not> same_key context step_key r) old)"

section \<open>Execution engine (mcp/mcp\_base.py)\<close>

text \<open>
  \<^verbatim>\<open>MCPBase.run\<close>. The subclass hooks are parameters: \<^verbatim>\<open>_execute_step\<close> returns
  \<open>None\<close> when it returns and \<open>Some exc\<close> when it raises; \<^verbatim>\<open>_self_heal\<close> returns a
  truthy or falsy value or raises. The state keeps the backend's state, the texts given to
  \<^verbatim>\<open>reporter.attach_text\<close> (step number, attempt number, exception), the number of
  \<^verbatim>\<open>time.sleep\<close> calls, and as a ghost variable the step index of every call of
  \<^verbatim>\<open>_execute_step\<close>.

  The loop \<^verbatim>\<open>while True\<close> need not end (a step that always fails and always heals), so
  it runs on fuel: \<open>None\<close> is a loop that has not ended within the fuel.
\<close>

datatype heal_result =
    Healed
  | NotHealed
  | HealRaised string

record 'w engine_state =
  es_world :: 'w
  es_attachments :: "(nat \<times> int \<times> string) list"
  es_sleeps :: nat
  es_executions :: "nat list"

fun MCPBase_attempts ::
  "nat \<Rightarrow> ('w \<Rightarrow> step \<Rightarrow> string option \<times> 'w) \<Rightarrow> ('w \<Rightarrow> step \<Rightarrow> string \<Rightarrow> heal_result \<times> 'w)
     \<Rightarrow> int \<Rightarrow> nat \<Rightarrow> step \<Rightarrow> int \<Rightarrow> 'w engine_state
     \<Rightarrow> (string option \<times> 'w engine_state) option" where
  "MCPBase_attempts 0 execute_step self_heal max_retries idx step attempt s = None"
| "MCPBase_attempts (Suc fuel) execute_step self_heal max_retries idx step attempt s =
     (let (r, w1) = execute_step (es_world s) step;
          s1 = s\<lparr>es_world := w1, es_executions := es_executions s @ [idx]\<rparr>
      in case r of
           None \<Rightarrow> Some (None, s1)
         | Some exc \<Rightarrow>
             (let attempt1 = attempt + 1;
                  s2 = s1\<lparr>es_attachments := es_attachments s1 @ [(idx + 1, attempt1, exc)]\<rparr>;
                  (healed, w2) = self_heal (es_world s2) step exc;
                  s3 = s2\<lparr>es_world := w2\<rparr>
              in if healed = Healed
                   then MCPBase_attempts fuel execute_step self_heal max_retries idx step attempt1 s3
                 else if attempt1 \<ge> max_retries
                   then Some (Some exc, s3)
                 else MCPBase_attempts fuel execute_step self_heal max_retries idx step attempt1
                        (s3\<lparr>es_sleeps := es_sleeps s3 + 1\<rparr>)))"

fun MCPBase_run_from ::
  "nat \<Rightarrow> ('w \<Rightarrow> step \<Rightarrow> string option \<times> 'w) \<Rightarrow> ('w \<Rightarrow> step \<Rightarrow> string \<Rightarrow> heal_result \<times> 'w)
     \<Rightarrow> int \<Rightarrow> nat \<Rightarrow> step list \<Rightarrow> 'w engine_state
     \<Rightarrow> (string option \<times> 'w engine_state) option" where
  "MCPBase_run_from fuel execute_step self_heal max_retries idx [] s = Some (None, s)"
| "MCPBase_run_from fuel execute_step self_heal max_retries idx (step # rest) s =
     (case MCPBase_attempts fuel execute_step self_heal max_retries idx step 0 s of
        None \<Rightarrow> None
      | Some (Some exc, s') \<Rightarrow> Some (Some exc, s')
      | Some (None, s') \<Rightarrow>
          MCPBase_run_from fuel execute_step self_heal max_retries (idx + 1) rest s')"

definition MCPBase_run ::
  "nat \<Rightarrow> ('w \<Rightarrow> step \<Rightarrow> string option \<times> 'w) \<Rightarrow> ('w \<Rightarrow> step \<Rightarrow> string \<Rightarrow> heal_result \<times> 'w)
     \<Rightarrow> int \<Rightarrow> step list \<Rightarrow> 'w \<Rightarrow> (string option \<times> 'w engine_state) option" where
  "MCPBase_run fuel execute_step self_heal max_retries steps w =
     MCPBase_run_from fuel execute_step self_heal max_retries 0 steps
       \<lparr>es_world = w, es_attachments = [], es_sleeps = 0, es_executions = []\<rparr>"

subsection \<open>The retry loop as the specification words it\<close>

text \<open>
  Section 4.1, step 4: on failure attach the evidence and call the healing hook; when
  healing reports success, retry the same step at once without consuming a retry-count
  increment; otherwise increment the attempt count, and raise when it has reached
  \<^verbatim>\<open>max_retries\<close>, else sleep and retry.
\<close>

fun spec_attempts ::
  "nat \<Rightarrow> ('w \<Rightarrow> step \<Rightarrow> string option \<times> 'w) \<Rightarrow> ('w \<Rightarrow> step \<Rightarrow> string \<Rightarrow> heal_result \<times> 'w)
     \<Rightarrow> int \<Rightarrow> nat \<Rightarrow> step \<Rightarrow> int \<Rightarrow> 'w engine_state
     \<Rightarrow> (string option \<times> 'w engine_state) option" where
  "spec_attempts 0 execute_step self_heal max_retries idx step attempt s = None"
| "spec_attempts (Suc fuel) execute_step self_heal max_retries idx step attempt s =
     (let (r, w1) = execute_step (es_world s) step;
          s1 = s\<lparr>es_world := w1, es_executions := es_executions s @ [idx]\<rparr>
      in case r of
           None \<Rightarrow> Some (None, s1)
         | Some exc \<Rightarrow>
             (let s2 = s1\<lparr>es_attachments := es_attachments s1 @ [(idx + 1, attempt + 1, exc)]\<rparr>;
                  (healed, w2) = self_heal (es_world s2) step exc;
                  s3 = s2\<lparr>es_world := w2\<rparr>
              in if healed = Healed
                   then spec_attempts fuel execute_step self_heal max_retries idx step attempt s3
                 else if attempt + 1 \<ge> max_retries
                   then Some (Some exc, s3)
                 else spec_attempts fuel execute_step self_heal max_retries idx step (attempt + 1)
                        (s3\<lparr>es_sleeps := es_sleeps s3 + 1\<rparr>)))"

section \<open>Router (mcp\_router.py) and the translator's classification (llm\_agent.py)\<close>

text \<open>
  \<^verbatim>\<open>MCPRouter._classify\<close>. The client held in \<^verbatim>\<open>self.llm\<close> is a parameter: \<open>None\<close>
  when the router has none, else its \<^verbatim>\<open>classify\<close> method, which returns a string or
  raises. The four keyword lists are those of the configuration. \<open>str_lower\<close> is
  \<^verbatim>\<open>str.lower\<close>.
\<close>

record TestCase =
  tc_identifier :: string
  tc_steps :: "step list"
  tc_type :: "string option"

record router_config =
  ui_keywords :: "string list"
  api_keywords :: "string list"
  mobile_keywords :: "string list"
  sql_keywords :: "string list"

text \<open>
  The two nested loops over \<^verbatim>\<open>keywords_map.items()\<close>: the first category, in the order
  of the dictionary literal, one of whose keywords, lower-cased, occurs in the text.
\<close>

fun first_category ::
  "(string \<Rightarrow> string) \<Rightarrow> (string \<times> string list) list \<Rightarrow> string \<Rightarrow> string option" where
  "first_category str_lower [] combined_lower = None"
| "first_category str_lower ((category, keywords) # rest) combined_lower =
     (if list_ex (\<lambda>kw. contains combined_lower (str_lower kw)) keywords then Some category
      else first_category str_lower rest combined_lower)"

definition MCPRouter_heuristic ::
  "(string \<Rightarrow> string) \<Rightarrow> router_config \<Rightarrow> string \<Rightarrow> string" where
  "MCPRouter_heuristic str_lower config combined_text =
     (let keywords_map = [(''ui'', ui_keywords config), (''api'', api_keywords config),
                          (''mobile'', mobile_keywords config), (''sql'', sql_keywords config)];
          combined_lower = str_lower combined_text
      in case first_category str_lower keywords_map combined_lower of
           Some category \<Rightarrow> category
         | None \<Rightarrow> ''api'')"

text \<open>
  \<^verbatim>\<open>"\n".join(json.dumps(step, ensure_ascii=False) for step in tc.steps)\<close>; \<open>None\<close>
  when a step cannot be serialised, and the \<^verbatim>\<open>TypeError\<close> leaves \<^verbatim>\<open>_classify\<close>.
\<close>

definition combined_text_of :: "TestCase \<Rightarrow> string option" where
  "combined_text_of tc =
     map_option (join [CHR 0x0A])
       (sequence_option (map (\<lambda>step. json_dumps False False (VDict step)) (tc_steps tc)))"

definition MCPRouter_classify ::
  "(string \<Rightarrow> string) \<Rightarrow> (string \<Rightarrow> py_error + string) option \<Rightarrow> router_config \<Rightarrow> TestCase
     \<Rightarrow> py_error + string" where
  "MCPRouter_classify str_lower llm config tc =
     (case tc_type tc of
        Some (c # cs) \<Rightarrow> Inr (str_lower (c # cs))
      | _ \<Rightarrow>
          (case combined_text_of tc of
             None \<Rightarrow> Inl (TypeError ''Object is not JSON serializable'')
           | Some combined_text \<Rightarrow>
               (case llm of
                  None \<Rightarrow> Inr (MCPRouter_heuristic str_lower config combined_text)
                | Some classify \<Rightarrow>
                    (case classify combined_text of
                       Inr category \<Rightarrow> Inr category
                     | Inl exc \<Rightarrow> Inr (MCPRouter_heuristic str_lower config combined_text)))))"

subsection \<open>llm\_integration/llm\_agent.py\<close>

text \<open>
  \<^verbatim>\<open>LLMAgent._heuristic_classify\<close> and \<^verbatim>\<open>LLMAgent.classify\<close>. \<^verbatim>\<open>_call_llm\<close> is a
  parameter: it returns the provider's answer or \<^verbatim>\<open>None\<close>, and does not raise.
  \<open>str_strip\<close> and \<open>str_lower\<close> are \<^verbatim>\<open>str.strip\<close> and \<^verbatim>\<open>str.lower\<close>.
\<close>

definition LLMAgent_heuristic_classify ::
  "(string \<Rightarrow> string) \<Rightarrow> router_config \<Rightarrow> string \<Rightarrow> string" where
  "LLMAgent_heuristic_classify str_lower config text =
     (let text_lower = str_lower text in
      if list_ex (\<lambda>keyword. contains text_lower keyword) (ui_keywords config) then ''ui''
      else if list_ex (\<lambda>keyword. contains text_lower keyword) (api_keywords config) then ''api''
      else if list_ex (\<lambda>keyword. contains text_lower keyword) (mobile_keywords config) then ''mobile''
      else if list_ex (\<lambda>keyword. contains text_lower keyword) (sql_keywords config) then ''sql''
      else ''ui'')"

definition LLMAgent_classify ::
  "(string \<Rightarrow> string) \<Rightarrow> (string \<Rightarrow> string) \<Rightarrow> bool \<Rightarrow> (string \<Rightarrow> string option) \<Rightarrow> router_config
     \<Rightarrow> string \<Rightarrow> string" where
  "LLMAgent_classify str_strip str_lower active_provider call_llm config text =
     (if \<not> active_provider then LLMAgent_heuristic_classify str_lower config text
      else
        (case call_llm text of
           Some (c # cs) \<Rightarrow>
             (let category = str_lower (str_strip (c # cs)) in
              if category \<in> set [''ui'', ''api'', ''mobile'', ''sql''] then category
              else LLMAgent_heuristic_classify str_lower config text)
         | _ \<Rightarrow> LLMAgent_heuristic_classify str_lower config text))"

section \<open>Version manager (versioning/version\_manager.py)\<close>

text \<open>
  The table \<^verbatim>\<open>test_set_versions\<close> without its timestamp column. A test case is a
  dictionary. Three library functions are parameters of the model:
  \<^item> \<open>loads\<close>, \<^verbatim>\<open>json.loads\<close> on a stored snapshot (\<open>None\<close> when it raises);
  \<^item> \<open>embedding_similarity\<close>, the TF-IDF cosine similarity of scikit-learn on the two
    lists of texts (\<open>None\<close> when the import or the computation raises);
  \<^item> \<open>sequence_ratio\<close>, \<^verbatim>\<open>SequenceMatcher(None, a, b).ratio()\<close> of difflib.
  A similarity is a real number.
\<close>

record version_row =
  vr_id :: nat
  vr_user_story :: string
  vr_version_number :: int
  vr_author :: string
  vr_similarity :: real
  vr_test_cases_json :: string

record version_store =
  version_rows :: "version_row list"
  version_rows_seq :: nat

record version_libs =
  loads :: "string \<Rightarrow> step list option"
  embedding_similarity :: "string list \<Rightarrow> string list \<Rightarrow> real option"
  sequence_ratio :: "string \<Rightarrow> string \<Rightarrow> real"

record add_version_result =
  avr_version_id :: nat
  avr_version_number :: int
  avr_similarity :: real
  avr_added :: "step list"
  avr_removed :: "step list"
  avr_unchanged :: "step list"

text \<open>
  \<^verbatim>\<open>SELECT ... WHERE user_story=? ORDER BY version_number DESC LIMIT 1\<close>: the row of the
  story with the largest version number.
\<close>

definition latest_row :: "version_store \<Rightarrow> string \<Rightarrow> version_row option" where
  "latest_row st user_story =
     (case filter (\<lambda>r. vr_user_story r = user_story) (version_rows st) of
        [] \<Rightarrow> None
      | r # rs \<Rightarrow>
          Some (fold (\<lambda>x b. if vr_version_number x > vr_version_number b then x else b) rs r))"

definition get_latest_version_info ::
  "version_libs \<Rightarrow> version_store \<Rightarrow> string
     \<Rightarrow> py_error + (nat \<times> int \<times> step list \<times> real) option" where
  "get_latest_version_info libs st user_story =
     (case latest_row st user_story of
        None \<Rightarrow> Inr None
      | Some row \<Rightarrow>
          (case loads libs (vr_test_cases_json row) of
             None \<Rightarrow> Inl (JSONDecodeError ''Expecting value'')
           | Some cases \<Rightarrow>
               Inr (Some (vr_id row, vr_version_number row, cases, vr_similarity row))))"

text \<open>\<^verbatim>\<open>[json.dumps(tc, sort_keys=True) for tc in cases]\<close>, \<open>None\<close> when one raises.\<close>

definition case_texts :: "step list \<Rightarrow> string list option" where
  "case_texts cases = sequence_option (map (\<lambda>tc. json_dumps True True (VDict tc)) cases)"

definition compute_similarity ::
  "version_libs \<Rightarrow> string \<Rightarrow> step list \<Rightarrow> step list \<Rightarrow> py_error + real" where
  "compute_similarity libs method old_cases new_cases =
     (let from_embedding =
            (if method = ''embedding'' then
               (case (case_texts old_cases, case_texts new_cases) of
                  (Some old_texts, Some new_texts) \<Rightarrow>
                    embedding_similarity libs old_texts new_texts
                | _ \<Rightarrow> None)
             else None)
      in case from_embedding of
           Some sim \<Rightarrow> Inr sim
         | None \<Rightarrow>
             (case (case_texts old_cases, case_texts new_cases) of
                (Some old_texts, Some new_texts) \<Rightarrow>
                  Inr (sequence_ratio libs (join [CHR 0x0A] old_texts) (join [CHR 0x0A] new_texts))
              | _ \<Rightarrow> Inl (TypeError ''Object is not JSON serializable'')))"

text \<open>
  \<^verbatim>\<open>{c.get("identifier"): c for c in cases}\<close>: a later case replaces an earlier one with
  the same identifier, at the earlier one's place. A list or a dictionary cannot be a key
  (\<^verbatim>\<open>TypeError: unhashable type\<close>). \<^verbatim>\<open>c.get\<close> gives \<^verbatim>\<open>None\<close> for a case without
  identifier, and as dictionary keys \<^verbatim>\<open>True\<close> is 1 and \<^verbatim>\<open>False\<close> is 0.
\<close>

definition hashable :: "pyval option \<Rightarrow> bool" where
  "hashable k = (case k of Some (VList _) \<Rightarrow> False | Some (VDict _) \<Rightarrow> False | _ \<Rightarrow> True)"

definition identifier_key :: "pyval option \<Rightarrow> pyval" where
  "identifier_key k =
     (case k of
        None \<Rightarrow> VNone
      | Some (VBool b) \<Rightarrow> VInt (if b then 1 else 0)
      | Some v \<Rightarrow> v)"

fun dict_put :: "'k \<Rightarrow> 'v \<Rightarrow> ('k \<times> 'v) list \<Rightarrow> ('k \<times> 'v) list" where
  "dict_put k v [] = [(k, v)]"
| "dict_put k v ((k', v') # kvs) = (if k' = k then (k, v) # kvs else (k', v') # dict_put k v kvs)"

definition by_identifier :: "step list \<Rightarrow> (pyval \<times> step) list option" where
  "by_identifier cases =
     (if list_all (\<lambda>c. hashable (dict_get c ''identifier'')) cases
      then Some (fold (\<lambda>c m. dict_put (identifier_key (dict_get c ''identifier'')) c m) cases [])
      else None)"

definition VersionManager_add_version ::
  "version_libs \<Rightarrow> string \<Rightarrow> string \<Rightarrow> step list \<Rightarrow> string \<Rightarrow> version_store
     \<Rightarrow> py_error + (add_version_result \<times> version_store)" where
  "VersionManager_add_version libs method user_story test_cases author st =
     (case get_latest_version_info libs st user_story of
        Inl exc \<Rightarrow> Inl exc
      | Inr latest \<Rightarrow>
          (let version_number = (case latest of Some (_, n, _, _) \<Rightarrow> n + 1 | None \<Rightarrow> 1);
               compared =
                 (case latest of
                    None \<Rightarrow> Inr (0, test_cases, [], [])
                  | Some (_, _, old_cases, _) \<Rightarrow>
                      (case compute_similarity libs method old_cases test_cases of
                         Inl exc \<Rightarrow> Inl exc
                       | Inr similarity \<Rightarrow>
                           (case (by_identifier old_cases, by_identifier test_cases) of
                              (Some old_map, Some new_map) \<Rightarrow>
                                Inr (similarity,
                                     map snd (filter (\<lambda>(key, c). map_of old_map key = None) new_map),
                                     map snd (filter (\<lambda>(key, c). map_of new_map key = None) old_map),
                                     map snd (filter (\<lambda>(key, c). map_of old_map key \<noteq> None) new_map))
                            | _ \<Rightarrow> Inl (TypeError ''unhashable type''))))
           in case compared of
                Inl exc \<Rightarrow> Inl exc
              | Inr (similarity, added, removed, unchanged) \<Rightarrow>
                  (case json_dumps False False (VList (map VDict test_cases)) of
                     None \<Rightarrow> Inl (TypeError ''Object is not JSON serializable'')
                   | Some snapshot \<Rightarrow>
                       if version_number > 2 ^ 63 - 1
                         then Inl (OverflowError ''Python int too large to convert to SQLite INTEGER'')
                       else
                         (let version_id = version_rows_seq st + 1 in
                          Inr (\<lparr>avr_version_id = version_id,
                                avr_version_number = version_number,
                                avr_similarity = similarity,
                                avr_added = added, avr_removed = removed,
                                avr_unchanged = unchanged\<rparr>,
                               st\<lparr>version_rows := version_rows st @
                                     [\<lparr>vr_id = version_id, vr_user_story = user_story,
                                       vr_version_number = version_number,
                                       vr_author = author, vr_similarity = similarity,
                                       vr_test_cases_json = snapshot\<rparr>],
                                  version_rows_seq := version_id\<rparr>)))))"

section \<open>SQL fallback translation (utils/natural\_language\_sql.py)\<close>

text \<open>
  \<^verbatim>\<open>re.match(literal + "(.+)", cmd)\<close> for a pattern that is a literal followed by one
  greedy group of characters other than the newline: the match starts at the first
  character, and the group is the rest of the first line, which must not be empty.
\<close>

definition re_match_group :: "string \<Rightarrow> string \<Rightarrow> string option" where
  "re_match_group literal cmd =
     (if prefix literal cmd then
        (let g = takeWhile (\<lambda>c. c \<noteq> CHR 0x0A) (drop (length literal) cmd)
         in if g = [] then None else Some g)
      else None)"

text \<open>
  The three closures named \<^verbatim>\<open>assertion\<close>, each holding the name it was built for, and
  what they do with a cursor. Of the cursor the model keeps the \<^verbatim>\<open>name\<close> column of the
  table \<^verbatim>\<open>users\<close> and the first column of the rows still to be fetched. An assertion
  returns \<open>None\<close> when it holds and the message of the \<^verbatim>\<open>AssertionError\<close> otherwise.
\<close>

datatype assertion =
    AssertInserted string
  | AssertExists string
  | AssertDeleted string

record SQLTranslation =
  sql :: string
  assertion :: "assertion option"

record cursor =
  cur_users :: "string list"
  cur_pending :: "int list"

definition quoted :: "string \<Rightarrow> string" where
  "quoted name = [CHR 0x27] @ name @ [CHR 0x27]"

definition count_users :: "string \<Rightarrow> cursor \<Rightarrow> int" where
  "count_users name cur = int (length (filter (\<lambda>n. n = name) (cur_users cur)))"

fun run_assertion :: "assertion \<Rightarrow> cursor \<Rightarrow> string option \<times> cursor" where
  "run_assertion (AssertInserted name) cur =
     (let count = count_users name cur
      in (if count > 0 then None else Some (''User '' @ quoted name @ '' was not inserted''),
          cur\<lparr>cur_pending := []\<rparr>))"
| "run_assertion (AssertExists name) cur =
     (let count = (case cur_pending cur of [] \<Rightarrow> 0 | c # _ \<Rightarrow> c)
      in (if count > 0 then None else Some (''User '' @ quoted name @ '' does not exist''),
          cur\<lparr>cur_pending := tl (cur_pending cur)\<rparr>))"
| "run_assertion (AssertDeleted name) cur =
     (let count = count_users name cur
      in (if count = 0 then None else Some (''User '' @ quoted name @ '' was not deleted''),
          cur\<lparr>cur_pending := []\<rparr>))"

text \<open>
  \<^verbatim>\<open>english_to_sql\<close>, with \<^verbatim>\<open>str.strip\<close>, \<^verbatim>\<open>str.lower\<close> and \<^verbatim>\<open>str.title\<close> as
  its first three arguments.
\<close>

definition english_to_sql ::
  "(string \<Rightarrow> string) \<Rightarrow> (string \<Rightarrow> string) \<Rightarrow> (string \<Rightarrow> string) \<Rightarrow> string \<Rightarrow> SQLTranslation" where
  "english_to_sql str_strip str_lower str_title command =
     (let cmd = str_lower (str_strip command) in
      case re_match_group ''insert user '' cmd of
        Some g \<Rightarrow>
          (let name = str_title g in
           \<lparr>sql = ''INSERT INTO users (name) VALUES ('' @ quoted name @ '');'',
            assertion = Some (AssertInserted name)\<rparr>)
      | None \<Rightarrow>
          (case re_match_group ''verify exists user '' cmd of
             Some g \<Rightarrow>
               (let name = str_title g in
                \<lparr>sql = ''SELECT COUNT(*) FROM users WHERE name='' @ quoted name @ '';'',
                 assertion = Some (AssertExists name)\<rparr>)
           | None \<Rightarrow>
               (case re_match_group ''delete user '' cmd of
                  Some g \<Rightarrow>
                    (let name = str_title g in
                     \<lparr>sql = ''DELETE FROM users WHERE name='' @ quoted name @ '';'',
                      assertion = Some (AssertDeleted name)\<rparr>)
                | None \<Rightarrow> \<lparr>sql = command, assertion = None\<rparr>)))"

subsection \<open>The command patterns as the specification words them\<close>

text \<open>
  A command has the pattern \<^verbatim>\<open>literal <name>\<close> when it starts with the literal,
  followed by a non-empty name on the same line: the name is what stands between the
  literal and the end of the first line.
\<close>

definition spec_pattern :: "string \<Rightarrow> string \<Rightarrow> string \<Rightarrow> bool" where
  "spec_pattern literal cmd name =
     (name \<noteq> [] \<and> CHR 0x0A \<notin> set name \<and> prefix (literal @ name) cmd \<and>
      (let rest = drop (length literal + length name) cmd
       in rest = [] \<or> hd rest = CHR 0x0A))"

section \<open>Concrete inputs\<close>

text \<open>
  An empty database, a backend whose every step raises, and the two-step case of the
  specification's end-to-end scenario (the second step depends on the first).
\<close>

definition empty_database :: database where
  "empty_database =
     \<lparr>test_case_ids = [], test_cases_seq = 0, test_runs = [], test_runs_seq = 0, run_steps = []\<rparr>"

definition always_fails :: "unit \<Rightarrow> step \<Rightarrow> outcome \<times> unit" where
  "always_fails w step = (RaisedException ''boom'', w)"

definition dependent_case :: test_case where
  "dependent_case =
     \<lparr>case_id = None, case_user_story = Some ''Dependent'', case_test_set = Some ''Negative'',
      case_created_by = Some ''pytest'', case_source = Some ''manual'',
      case_steps = [[(''action'', VStr ''click''), (''selector'', VStr ''#missing'')],
                    [(''action'', VStr ''click''), (''selector'', VStr ''body''),
                     (''depends_on'', VInt 0)]]\<rparr>"

text \<open>A case with the keys the database asks for and no step.\<close>

definition empty_case :: test_case where
  "empty_case =
     \<lparr>case_id = None, case_user_story = Some ''Empty'', case_test_set = Some ''Smoke'',
      case_created_by = Some ''pytest'', case_source = Some ''manual'', case_steps = []\<rparr>"

text \<open>A store with one active locator for the key, and a complete locator.\<close>

definition one_locator_store :: locator_store where
  "one_locator_store =
     \<lparr>locators =
        [\<lparr>loc_id = 1, loc_context = ''ui'', loc_step_key = ''click:Login'',
          locator_type = ''css'', locator_value = ''#login'', version = 1, is_active = 1,
          created_at = ''t0'', updated_at = ''t0''\<rparr>],
      locators_seq = 1\<rparr>"

definition two_locator_store :: "string \<Rightarrow> string \<Rightarrow> locator_store" where
  "two_locator_store now1 now2 =
     \<lparr>locators =
        [\<lparr>loc_id = 1, loc_context = ''ui'', loc_step_key = ''click:Login'',
          locator_type = ''css'', locator_value = ''#login'', version = 1, is_active = 0,
          created_at = ''t0'', updated_at = now1\<rparr>,
         \<lparr>loc_id = 2, loc_context = ''ui'', loc_step_key = ''click:Login'',
          locator_type = ''xpath'', locator_value = ''//button'', version = 2, is_active = 1,
          created_at = now2, updated_at = now2\<rparr>],
      locators_seq = 2\<rparr>"

definition xpath_locator :: "(string \<times> string) list" where
  "xpath_locator = [(''type'', ''xpath''), (''value'', ''//button'')]"

text \<open>A step that names its element by \<^verbatim>\<open>target\<close> only.\<close>

definition target_step :: step where
  "target_step = [(''action'', VStr ''click''), (''target'', VStr ''Login'')]"

text \<open>
  For the engine: the backend state counts the calls of the healing hook; every
  execution raises, and only the first healing reports success.
\<close>

definition always_raises :: "nat \<Rightarrow> step \<Rightarrow> string option \<times> nat" where
  "always_raises w step = (Some ''boom'', w)"

definition heals_first_only :: "nat \<Rightarrow> step \<Rightarrow> string \<Rightarrow> heal_result \<times> nat" where
  "heals_first_only w step exc = (if w = 0 then Healed else NotHealed, w + 1)"

definition click_step :: step where
  "click_step = [(''action'', VStr ''click'')]"

text \<open>
  For the router: a case of one click step with no declared type, a configuration in
  which \<^verbatim>\<open>click\<close> is a UI keyword and one with no keyword at all, a client that answers
  \<^verbatim>\<open>web\<close>, a client that raises, and the \<^verbatim>\<open>LLMAgent\<close> over a provider that answers
  \<^verbatim>\<open>web\<close>.
\<close>

definition click_case :: TestCase where
  "click_case = \<lparr>tc_identifier = ''TC1'', tc_steps = [click_step], tc_type = None\<rparr>"

definition typed_case :: TestCase where
  "typed_case = \<lparr>tc_identifier = ''TC2'', tc_steps = [click_step], tc_type = Some ''UI''\<rparr>"

definition click_config :: router_config where
  "click_config =
     \<lparr>ui_keywords = [''click''], api_keywords = [''GET''], mobile_keywords = [''tap''],
      sql_keywords = [''select'']\<rparr>"

definition no_keywords :: router_config where
  "no_keywords = \<lparr>ui_keywords = [], api_keywords = [], mobile_keywords = [], sql_keywords = []\<rparr>"

definition answers_web :: "string \<Rightarrow> py_error + string" where
  "answers_web text = Inr ''web''"

definition raises_timeout :: "string \<Rightarrow> py_error + string" where
  "raises_timeout text = Inl (OtherError ''timeout'')"

definition provider_says_web :: "string \<Rightarrow> string option" where
  "provider_says_web text = Some ''web''"

definition agent_client :: "string \<Rightarrow> py_error + string" where
  "agent_client text =
     Inr (LLMAgent_classify ascii_strip ascii_lower True provider_says_web no_keywords text)"

text \<open>
  For the version manager: one test case, its snapshot, libraries in which the embedding
  method is not available and the ratio of a text with itself is 1, and the result and
  the store of the first call on an empty store.
\<close>

definition login_cases :: "step list" where
  "login_cases = [[(''identifier'', VStr ''TC1''), (''title'', VStr ''Login'')]]"

definition login_snapshot :: string where
  "login_snapshot = ''[{\"identifier\": \"TC1\", \"title\": \"Login\"}]''"

definition difflib_only :: version_libs where
  "difflib_only =
     \<lparr>loads = (\<lambda>text. if text = login_snapshot then Some login_cases else None),
      embedding_similarity = (\<lambda>old_texts new_texts. None),
      sequence_ratio = (\<lambda>a b. if a = b then 1 else 0)\<rparr>"

definition empty_version_store :: version_store where
  "empty_version_store = \<lparr>version_rows = [], version_rows_seq = 0\<rparr>"

definition first_result :: add_version_result where
  "first_result =
     \<lparr>avr_version_id = 1, avr_version_number = 1, avr_similarity = 0,
      avr_added = login_cases, avr_removed = [], avr_unchanged = []\<rparr>"

definition one_version_store :: version_store where
  "one_version_store =
     \<lparr>version_rows =
        [\<lparr>vr_id = 1, vr_user_story = ''US-1'', vr_version_number = 1, vr_author = ''alice'',
          vr_similarity = 0, vr_test_cases_json = login_snapshot\<rparr>],
      version_rows_seq = 1\<rparr>"

section \<open>Verified properties\<close>

lemma WebDriver_step_row:
  "\<exists>st msg. st_db (WebDriver_step e r idx step s) = add_run_step (st_db s) r idx st msg
     \<and> passed_steps (WebDriver_step e r idx step s) = passed_steps s + (if st = ''passed'' then 1 else 0)
     \<and> failed_steps (WebDriver_step e r idx step s) = failed_steps s + (if st = ''failed'' then 1 else 0)
     \<and> skipped_steps (WebDriver_step e r idx step s) = skipped_steps s + (if st = ''skipped'' then 1 else 0)
     \<and> (st = ''passed'' \<or> st = ''failed'' \<or> st = ''skipped'')
     \<and> (dep_unmet (st_db s) r step \<longrightarrow> st = ''skipped'' \<and> st_calls (WebDriver_step e r idx step s) = st_calls s)
     \<and> set (st_calls (WebDriver_step e r idx step s)) \<subseteq> insert idx (set (st_calls s))"
  apply (cases "dep_unmet (st_db s) r step")
  subgoal
   by (auto simp: WebDriver_step_def dep_unmet_def Let_def split: option.splits if_splits)
  subgoal
   apply (cases "e (st_world s) step")
   subgoal for res w
     apply (cases res)
     by (auto simp: WebDriver_step_def dep_unmet_def Let_def split: option.splits if_splits)
   done
  done


lemma WebDriver_steps_append:
  "WebDriver_steps e r idx (xs @ ys) s =
     WebDriver_steps e r (idx + length xs) ys (WebDriver_steps e r idx xs s)"
  by (induction xs arbitrary: idx s) simp_all

lemma count_status_append [simp]:
  "count_status st (xs @ ys) = count_status st xs + count_status st ys"
  by (simp add: count_status_def)

lemma WebDriver_steps_rows:
  "\<exists>new. run_steps (st_db (WebDriver_steps e r idx steps s)) = run_steps (st_db s) @ new
     \<and> length new = length steps
     \<and> map rs_step_index new = [idx..<idx + length steps]
     \<and> (\<forall>row\<in>set new. rs_test_run_id row = r)
     \<and> passed_steps (WebDriver_steps e r idx steps s) = passed_steps s + count_status ''passed'' new
     \<and> failed_steps (WebDriver_steps e r idx steps s) = failed_steps s + count_status ''failed'' new
     \<and> skipped_steps (WebDriver_steps e r idx steps s) = skipped_steps s + count_status ''skipped'' new"
proof (induction steps arbitrary: idx s)
  case Nil
  show ?case by (simp add: count_status_def)
next
  case (Cons x xs)
  let ?s1 = "WebDriver_step e r idx x s"
  obtain st msg where h:
    "st_db ?s1 = add_run_step (st_db s) r idx st msg"
    "passed_steps ?s1 = passed_steps s + (if st = ''passed'' then 1 else 0)"
    "failed_steps ?s1 = failed_steps s + (if st = ''failed'' then 1 else 0)"
    "skipped_steps ?s1 = skipped_steps s + (if st = ''skipped'' then 1 else 0)"
    using WebDriver_step_row [of e r idx x s] by blast
  let ?row = "\<lparr>rs_test_run_id = r, rs_step_index = idx, rs_status = st, rs_message = msg\<rparr>"
  from Cons.IH [of "idx + 1" ?s1] obtain new where n:
    "run_steps (st_db (WebDriver_steps e r (idx + 1) xs ?s1)) = run_steps (st_db ?s1) @ new"
    "length new = length xs"
    "map rs_step_index new = [idx + 1..<idx + 1 + length xs]"
    "\<forall>row\<in>set new. rs_test_run_id row = r"
    "passed_steps (WebDriver_steps e r (idx + 1) xs ?s1) = passed_steps ?s1 + count_status ''passed'' new"
    "failed_steps (WebDriver_steps e r (idx + 1) xs ?s1) = failed_steps ?s1 + count_status ''failed'' new"
    "skipped_steps (WebDriver_steps e r (idx + 1) xs ?s1) = skipped_steps ?s1 + count_status ''skipped'' new"
    by blast
  have r1: "run_steps (st_db ?s1) = run_steps (st_db s) @ [?row]"
    by (simp add: h(1) add_run_step_def)
  have "run_steps (st_db (WebDriver_steps e r idx (x # xs) s)) = run_steps (st_db s) @ (?row # new)"
    using n(1) r1 by simp
  moreover have "length (?row # new) = length (x # xs)" using n(2) by simp
  moreover have "map rs_step_index (?row # new) = [idx..<idx + length (x # xs)]"
    using n(3) by (simp add: upt_rec)
  moreover have "\<forall>row\<in>set (?row # new). rs_test_run_id row = r" using n(4) by simp
  moreover have "passed_steps (WebDriver_steps e r idx (x # xs) s) = passed_steps s + count_status ''passed'' (?row # new)"
    using n(5) h(2) by (simp add: count_status_def)
  moreover have "failed_steps (WebDriver_steps e r idx (x # xs) s) = failed_steps s + count_status ''failed'' (?row # new)"
    using n(6) h(3) by (simp add: count_status_def)
  moreover have "skipped_steps (WebDriver_steps e r idx (x # xs) s) = skipped_steps s + count_status ''skipped'' (?row # new)"
    using n(7) h(4) by (simp add: count_status_def)
  ultimately show ?case by blast
qed

lemma WebDriver_step_test_runs:
  "test_runs (st_db (WebDriver_step e r idx x s)) = test_runs (st_db s)"
  using WebDriver_step_row [of e r idx x s] by (auto simp: add_run_step_def)

lemma WebDriver_steps_test_runs:
  "test_runs (st_db (WebDriver_steps e r idx steps s)) = test_runs (st_db s)"
  by (induction steps arbitrary: idx s) (simp_all add: WebDriver_step_test_runs)

lemma WebDriver_steps_calls:
  "set (st_calls (WebDriver_steps e r idx steps s)) \<subseteq> set (st_calls s) \<union> {idx..<idx + length steps}"
proof (induction steps arbitrary: idx s)
  case Nil
  show ?case by simp
next
  case (Cons x xs)
  have A: "set (st_calls (WebDriver_step e r idx x s)) \<subseteq> insert idx (set (st_calls s))"
    using WebDriver_step_row [of e r idx x s] by blast
  have B: "set (st_calls (WebDriver_steps e r idx (x # xs) s))
             \<subseteq> set (st_calls (WebDriver_step e r idx x s)) \<union> {idx + 1..<idx + 1 + length xs}"
    using Cons.IH [of "idx + 1" "WebDriver_step e r idx x s"] by simp
  have C: "insert idx (set (st_calls s)) \<union> {idx + 1..<idx + 1 + length xs}
             \<subseteq> set (st_calls s) \<union> {idx..<idx + length (x # xs)}"
    by auto
  from A B C show ?case by blast
qed

lemma run_status_of_update:
  "list_ex (\<lambda>r. tr_id r = i) (test_runs db) \<Longrightarrow>
   run_status_of (update_test_run db i st err) i = Some st"
proof -
  have "list_ex (\<lambda>r. tr_id r = i) rows \<Longrightarrow>
        map_option tr_status (find (\<lambda>r. tr_id r = i)
          (map (\<lambda>r. if tr_id r = i then r\<lparr>tr_status := st, tr_error_message := err\<rparr> else r) rows)) = Some st"
    for rows :: "test_run_row list"
    by (induction rows) auto
  then show "list_ex (\<lambda>r. tr_id r = i) (test_runs db) \<Longrightarrow> ?thesis"
    by (simp add: run_status_of_def update_test_run_def)
qed


lemma WebDriver_run_unfold:
  assumes "(case case_id c of None \<Rightarrow> add_test_case db
             | Some i \<Rightarrow> if i = 0 then add_test_case db else (i, db)) = (tcid, db1)"
    and "add_test_run db1 tcid ''running'' = (run_id, db2)"
    and "WebDriver_steps e run_id 0 (case_steps c)
                \<lparr>st_db = db2, st_world = w, passed_steps = 0, failed_steps = 0,
                 skipped_steps = 0, error_message = None, st_calls = []\<rparr> = s"
  shows "WebDriver_run_test_case e c db w =
     \<lparr>rr_run_id = run_id,
      rr_db = update_test_run (st_db s) run_id
         (spec_aggregate_status (passed_steps s) (failed_steps s) (skipped_steps s)) (error_message s),
      rr_world = st_world s, rr_calls = st_calls s\<rparr>"
  unfolding WebDriver_run_test_case_def Let_def assms(1) assms(2) prod.case
  unfolding assms(3) spec_aggregate_status_def Let_def
  by (rule refl)


lemma WebDriver_steps_dep:
  assumes r: "r \<noteq> 0"
    and i: "i < length steps"
    and dep: "dict_get (steps ! i) ''depends_on'' = Some v" "dep_int v = Some (int (idx + d))"
    and d: "d < i"
    and rows: "run_steps (st_db (WebDriver_steps e r idx steps s)) = run_steps (st_db s) @ new"
    and st: "rs_status (new ! d) = ''failed'' \<or> rs_status (new ! d) = ''skipped''"
    and nc: "idx + i \<notin> set (st_calls s)"
  shows "rs_status (new ! i) = ''skipped'' \<and> idx + i \<notin> set (st_calls (WebDriver_steps e r idx steps s))"
proof -
  define P where "P = take i steps"
  define x where "x = steps ! i"
  define Q where "Q = drop (Suc i) steps"
  have steps: "steps = P @ x # Q" and lP: "length P = i"
    using i by (simp_all add: P_def x_def Q_def id_take_nth_drop [symmetric])
  define sP where "sP = WebDriver_steps e r idx P s"
  define sx where "sx = WebDriver_step e r (idx + i) x sP"
  have fin: "WebDriver_steps e r idx steps s = WebDriver_steps e r (idx + i + 1) Q sx"
    by (simp add: steps WebDriver_steps_append lP sP_def sx_def)
  obtain nP where nP: "run_steps (st_db sP) = run_steps (st_db s) @ nP" "length nP = i"
      "map rs_step_index nP = [idx..<idx + i]" "\<forall>row\<in>set nP. rs_test_run_id row = r"
    using WebDriver_steps_rows [of e r idx P s] unfolding sP_def lP by blast
  obtain stx msg where sx:
      "st_db sx = add_run_step (st_db sP) r (idx + i) stx msg"
      "dep_unmet (st_db sP) r x \<longrightarrow> stx = ''skipped'' \<and> st_calls sx = st_calls sP"
    using WebDriver_step_row [of e r "idx + i" x sP] unfolding sx_def by blast
  obtain nQ where nQ: "run_steps (st_db (WebDriver_steps e r (idx + i + 1) Q sx)) = run_steps (st_db sx) @ nQ"
    using WebDriver_steps_rows [of e r "idx + i + 1" Q sx] by blast
  let ?row = "\<lparr>rs_test_run_id = r, rs_step_index = idx + i, rs_status = stx, rs_message = msg\<rparr>"
  have "run_steps (st_db s) @ new = run_steps (st_db s) @ nP @ ?row # nQ"
    using rows nQ nP(1) sx(1) by (simp add: fin add_run_step_def)
  then have new: "new = nP @ ?row # nQ" by simp
  have newd: "new ! d = nP ! d" using d nP(2) by (simp add: new nth_append)
  have newi: "new ! i = ?row" using nP(2) by (simp add: new nth_append)
  have din: "nP ! d \<in> set nP" using d nP(2) by simp
  have "rs_step_index (nP ! d) = [idx..<idx + i] ! d"
    using nP(3) d nP(2) by (metis nth_map)
  then have idxd: "rs_step_index (nP ! d) = idx + d" using d by simp
  have rd: "rs_test_run_id (nP ! d) = r" using nP(4) din by blast
  have mem: "nP ! d \<in> set (get_run_steps (st_db sP) r)"
    using din rd by (simp add: get_run_steps_def nP(1))
  have "int (rs_step_index (nP ! d)) = int (idx + d) \<and>
        (rs_status (nP ! d) = ''failed'' \<or> rs_status (nP ! d) = ''skipped'')"
    using idxd st newd by simp
  with mem have "list_ex (\<lambda>row. int (rs_step_index row) = int (idx + d) \<and>
              (rs_status row = ''failed'' \<or> rs_status row = ''skipped'')) (get_run_steps (st_db sP) r)"
    unfolding list_ex_iff by blast
  then have "dep_unmet (st_db sP) r x"
    using dep r by (simp add: dep_unmet_def x_def)
  with sx(2) have skipped: "stx = ''skipped''" and calls: "st_calls sx = st_calls sP" by simp_all
  have cP: "set (st_calls sP) \<subseteq> set (st_calls s) \<union> {idx..<idx + i}"
    using WebDriver_steps_calls [of e r idx P s] by (simp add: sP_def lP)
  have cQ: "set (st_calls (WebDriver_steps e r (idx + i + 1) Q sx))
              \<subseteq> set (st_calls sx) \<union> {idx + i + 1..<idx + i + 1 + length Q}"
    by (rule WebDriver_steps_calls)
  have "idx + i \<notin> set (st_calls sP)" using cP nc by auto
  then have "idx + i \<notin> set (st_calls (WebDriver_steps e r (idx + i + 1) Q sx))"
    using cQ calls by auto
  then show ?thesis using skipped newi by (simp add: fin)
qed


lemma WebDriver_run_shape:
  "\<exists>run_id db2 s rows.
     run_id \<noteq> 0 \<and>
     s = WebDriver_steps e run_id 0 (case_steps c)
           \<lparr>st_db = db2, st_world = w, passed_steps = 0, failed_steps = 0,
            skipped_steps = 0, error_message = None, st_calls = []\<rparr> \<and>
     list_ex (\<lambda>r. tr_id r = run_id) (test_runs (st_db s)) \<and>
     run_steps (st_db s) = run_steps db2 @ rows \<and>
     (\<forall>st err. new_rows db (update_test_run (st_db s) run_id st err) = rows) \<and>
     WebDriver_run_test_case e c db w =
       \<lparr>rr_run_id = run_id,
        rr_db = update_test_run (st_db s) run_id
           (spec_aggregate_status (passed_steps s) (failed_steps s) (skipped_steps s))
           (error_message s),
        rr_world = st_world s, rr_calls = st_calls s\<rparr>"
proof -
  obtain tcid db1 where a: "(case case_id c of None \<Rightarrow> add_test_case db
             | Some i \<Rightarrow> if i = 0 then add_test_case db else (i, db)) = (tcid, db1)"
    by (cases "case case_id c of None \<Rightarrow> add_test_case db
             | Some i \<Rightarrow> if i = 0 then add_test_case db else (i, db)")
  have db1: "run_steps db1 = run_steps db"
    using a by (auto simp: add_test_case_def Let_def split: option.splits if_splits)
  obtain run_id db2 where b: "add_test_run db1 tcid ''running'' = (run_id, db2)"
    by (cases "add_test_run db1 tcid ''running''")
  have db2: "run_steps db2 = run_steps db1" "run_id \<noteq> 0"
      "list_ex (\<lambda>r. tr_id r = run_id) (test_runs db2)"
    using b by (auto simp: add_test_run_def Let_def list_ex_iff)
  define s0 :: "'a run_state" where
    "s0 = \<lparr>st_db = db2, st_world = w, passed_steps = 0, failed_steps = 0,
           skipped_steps = 0, error_message = None, st_calls = []\<rparr>"
  define s where "s = WebDriver_steps e run_id 0 (case_steps c) s0"
  obtain rows where n: "run_steps (st_db s) = run_steps (st_db s0) @ rows"
    unfolding s_def using WebDriver_steps_rows [of e run_id 0 "case_steps c" s0] by blast
  have R: "WebDriver_run_test_case e c db w =
     \<lparr>rr_run_id = run_id,
      rr_db = update_test_run (st_db s) run_id
         (spec_aggregate_status (passed_steps s) (failed_steps s) (skipped_steps s))
         (error_message s),
      rr_world = st_world s, rr_calls = st_calls s\<rparr>"
    by (rule WebDriver_run_unfold [OF a b]) (simp add: s_def s0_def)
  have "run_steps (update_test_run (st_db s) run_id st err) = run_steps db @ rows" for st err
    using n db1 db2(1) by (simp add: update_test_run_def s0_def)
  then have new: "\<forall>st err. new_rows db (update_test_run (st_db s) run_id st err) = rows"
    by (simp add: new_rows_def)
  have n': "run_steps (st_db s) = run_steps db2 @ rows" using n by (simp add: s0_def)
  have tr: "list_ex (\<lambda>r. tr_id r = run_id) (test_runs (st_db s))"
    using db2(3) by (simp add: s_def WebDriver_steps_test_runs s0_def)
  show ?thesis
    using db2(2) tr n' new R unfolding s_def s0_def by blast
qed

lemma WebDriver_dependency_skip:
  assumes i: "i < length (case_steps c)"
    and dep: "dict_get (case_steps c ! i) ''depends_on'' = Some (VInt (int d))"
    and d: "d < i"
    and st: "rs_status (new_rows db (rr_db (WebDriver_run_test_case e c db w)) ! d) = ''failed'' \<or>
             rs_status (new_rows db (rr_db (WebDriver_run_test_case e c db w)) ! d) = ''skipped''"
  shows "rs_status (new_rows db (rr_db (WebDriver_run_test_case e c db w)) ! i) = ''skipped'' \<and>
         i \<notin> set (rr_calls (WebDriver_run_test_case e c db w))"
proof -
  obtain run_id db2 s rows where sh:
    "run_id \<noteq> 0"
    "s = WebDriver_steps e run_id 0 (case_steps c)
           \<lparr>st_db = db2, st_world = w, passed_steps = 0, failed_steps = 0,
            skipped_steps = 0, error_message = None, st_calls = []\<rparr>"
    "run_steps (st_db s) = run_steps db2 @ rows"
    "\<forall>st err. new_rows db (update_test_run (st_db s) run_id st err) = rows"
    "WebDriver_run_test_case e c db w =
       \<lparr>rr_run_id = run_id,
        rr_db = update_test_run (st_db s) run_id
           (spec_aggregate_status (passed_steps s) (failed_steps s) (skipped_steps s))
           (error_message s),
        rr_world = st_world s, rr_calls = st_calls s\<rparr>"
    using WebDriver_run_shape [of e c w db] by blast
  have new: "new_rows db (rr_db (WebDriver_run_test_case e c db w)) = rows"
    using sh(4) by (simp add: sh(5))
  have calls: "rr_calls (WebDriver_run_test_case e c db w) = st_calls s"
    by (simp add: sh(5))
  have "rs_status (rows ! i) = ''skipped'' \<and>
        0 + i \<notin> set (st_calls (WebDriver_steps e run_id 0 (case_steps c)
           \<lparr>st_db = db2, st_world = w, passed_steps = 0, failed_steps = 0,
            skipped_steps = 0, error_message = None, st_calls = []\<rparr>))"
  proof (rule WebDriver_steps_dep [OF sh(1) i dep _ d])
    show "dep_int (VInt (int d)) = Some (int (0 + d))" by (simp add: dep_int_def)
    show "run_steps (st_db (WebDriver_steps e run_id 0 (case_steps c)
           \<lparr>st_db = db2, st_world = w, passed_steps = 0, failed_steps = 0,
            skipped_steps = 0, error_message = None, st_calls = []\<rparr>)) =
          run_steps (st_db \<lparr>st_db = db2, st_world = w, passed_steps = 0, failed_steps = 0,
            skipped_steps = 0, error_message = None, st_calls = []\<rparr>) @ rows"
      using sh(3) unfolding sh(2) by simp
    show "rs_status (rows ! d) = ''failed'' \<or> rs_status (rows ! d) = ''skipped''"
      using st unfolding new .
    show "0 + i \<notin> set (st_calls \<lparr>st_db = db2, st_world = w, passed_steps = 0, failed_steps = 0,
            skipped_steps = 0, error_message = None, st_calls = []\<rparr>)" by simp
  qed
  then show ?thesis unfolding new calls sh(2) by simp
qed

lemma WebDriver_run_status:
  "run_status_of (rr_db (WebDriver_run_test_case e c db w))
       (rr_run_id (WebDriver_run_test_case e c db w)) =
     Some (spec_aggregate_status
             (count_status ''passed'' (new_rows db (rr_db (WebDriver_run_test_case e c db w))))
             (count_status ''failed'' (new_rows db (rr_db (WebDriver_run_test_case e c db w))))
             (count_status ''skipped'' (new_rows db (rr_db (WebDriver_run_test_case e c db w)))))"
proof -
  obtain run_id db2 s rows where sh:
    "s = WebDriver_steps e run_id 0 (case_steps c)
           \<lparr>st_db = db2, st_world = w, passed_steps = 0, failed_steps = 0,
            skipped_steps = 0, error_message = None, st_calls = []\<rparr>"
    "run_steps (st_db s) = run_steps db2 @ rows"
    "list_ex (\<lambda>r. tr_id r = run_id) (test_runs (st_db s))"
    "\<forall>st err. new_rows db (update_test_run (st_db s) run_id st err) = rows"
    "WebDriver_run_test_case e c db w =
       \<lparr>rr_run_id = run_id,
        rr_db = update_test_run (st_db s) run_id
           (spec_aggregate_status (passed_steps s) (failed_steps s) (skipped_steps s))
           (error_message s),
        rr_world = st_world s, rr_calls = st_calls s\<rparr>"
    using WebDriver_run_shape [of e c w db] by blast
  define s0 :: "'a run_state" where
    "s0 = \<lparr>st_db = db2, st_world = w, passed_steps = 0, failed_steps = 0,
           skipped_steps = 0, error_message = None, st_calls = []\<rparr>"
  obtain rows' where n:
    "run_steps (st_db s) = run_steps (st_db s0) @ rows'"
    "passed_steps s = passed_steps s0 + count_status ''passed'' rows'"
    "failed_steps s = failed_steps s0 + count_status ''failed'' rows'"
    "skipped_steps s = skipped_steps s0 + count_status ''skipped'' rows'"
    unfolding sh(1) s0_def [symmetric]
    using WebDriver_steps_rows [of e run_id 0 "case_steps c" s0] by blast
  have "rows' = rows" using n(1) sh(2) by (simp add: s0_def)
  then have cnt: "passed_steps s = count_status ''passed'' rows"
     "failed_steps s = count_status ''failed'' rows"
     "skipped_steps s = count_status ''skipped'' rows"
    using n(2,3,4) by (simp_all add: s0_def)
  show ?thesis
    unfolding sh(5)
    by (simp only: run_result.simps sh(4) [rule_format] run_status_of_update [OF sh(3)] cnt)
qed

text \<open>
  The loops of the API and mobile drivers are the web driver's loop, and so are the
  status derivations that follow them: with the same backend the three functions agree.
\<close>

lemma APIDriver_step_eq: "APIDriver_step e r idx x s = WebDriver_step e r idx x s"
  by (simp add: APIDriver_step_def WebDriver_step_def)

lemma APIDriver_steps_eq: "APIDriver_steps e r idx steps s = WebDriver_steps e r idx steps s"
  by (induction steps arbitrary: idx s) (simp_all add: APIDriver_step_eq)

lemma APIDriver_run_eq: "APIDriver_run_test_case e c db w = WebDriver_run_test_case e c db w"
  unfolding APIDriver_run_test_case_def WebDriver_run_test_case_def APIDriver_steps_eq ..

lemma MobileDriver_step_eq: "MobileDriver_step e r idx x s = WebDriver_step e r idx x s"
  by (simp add: MobileDriver_step_def WebDriver_step_def)

lemma MobileDriver_steps_eq:
  "MobileDriver_steps e r idx steps s = WebDriver_steps e r idx steps s"
  by (induction steps arbitrary: idx s) (simp_all add: MobileDriver_step_eq)

lemma MobileDriver_run_eq:
  "MobileDriver_run_test_case e c db w = WebDriver_run_test_case e c db w"
  unfolding MobileDriver_run_test_case_def WebDriver_run_test_case_def MobileDriver_steps_eq ..

text \<open>
  Claim C1. For every step sequence run by a driver's \<^verbatim>\<open>run_test_case\<close>, with P, F and S
  the numbers of step rows the run recorded as passed, failed and skipped, the status
  stored for the run is the one the specification derives from P, F and S (skipped when
  nothing was executed and something was skipped, else passed when nothing failed and
  nothing was skipped, else failed when every executed step failed, else partial); and
  this holds alike for the web, API and mobile drivers.
\<close>

theorem aggregate_status_derivation:
  "run_status_of (rr_db (WebDriver_run_test_case e c db w))
       (rr_run_id (WebDriver_run_test_case e c db w)) =
     Some (spec_aggregate_status
             (count_status ''passed'' (new_rows db (rr_db (WebDriver_run_test_case e c db w))))
             (count_status ''failed'' (new_rows db (rr_db (WebDriver_run_test_case e c db w))))
             (count_status ''skipped'' (new_rows db (rr_db (WebDriver_run_test_case e c db w)))))
   \<and> run_status_of (rr_db (APIDriver_run_test_case e c db w))
       (rr_run_id (APIDriver_run_test_case e c db w)) =
     Some (spec_aggregate_status
             (count_status ''passed'' (new_rows db (rr_db (APIDriver_run_test_case e c db w))))
             (count_status ''failed'' (new_rows db (rr_db (APIDriver_run_test_case e c db w))))
             (count_status ''skipped'' (new_rows db (rr_db (APIDriver_run_test_case e c db w)))))
   \<and> run_status_of (rr_db (MobileDriver_run_test_case e c db w))
       (rr_run_id (MobileDriver_run_test_case e c db w)) =
     Some (spec_aggregate_status
             (count_status ''passed'' (new_rows db (rr_db (MobileDriver_run_test_case e c db w))))
             (count_status ''failed'' (new_rows db (rr_db (MobileDriver_run_test_case e c db w))))
             (count_status ''skipped'' (new_rows db (rr_db (MobileDriver_run_test_case e c db w)))))"
  unfolding APIDriver_run_eq MobileDriver_run_eq
  using WebDriver_run_status [of e c db w] by simp

text \<open>
  Claim C4. A step whose \<^verbatim>\<open>depends_on\<close> is the integer index \<open>d\<close> of an earlier step,
  when the row recorded for step \<open>d\<close> in this run says failed or skipped, is itself
  recorded as skipped, and \<^verbatim>\<open>_execute_step\<close> is never invoked for it; in the web, API
  and mobile drivers alike.
\<close>

theorem dependent_step_skipped:
  assumes "i < length (case_steps c)"
    and "dict_get (case_steps c ! i) ''depends_on'' = Some (VInt (int d))"
    and "d < i"
  shows
    "(rs_status (new_rows db (rr_db (WebDriver_run_test_case e c db w)) ! d) = ''failed'' \<or>
      rs_status (new_rows db (rr_db (WebDriver_run_test_case e c db w)) ! d) = ''skipped''
      \<longrightarrow> rs_status (new_rows db (rr_db (WebDriver_run_test_case e c db w)) ! i) = ''skipped'' \<and>
          i \<notin> set (rr_calls (WebDriver_run_test_case e c db w)))
   \<and> (rs_status (new_rows db (rr_db (APIDriver_run_test_case e c db w)) ! d) = ''failed'' \<or>
      rs_status (new_rows db (rr_db (APIDriver_run_test_case e c db w)) ! d) = ''skipped''
      \<longrightarrow> rs_status (new_rows db (rr_db (APIDriver_run_test_case e c db w)) ! i) = ''skipped'' \<and>
          i \<notin> set (rr_calls (APIDriver_run_test_case e c db w)))
   \<and> (rs_status (new_rows db (rr_db (MobileDriver_run_test_case e c db w)) ! d) = ''failed'' \<or>
      rs_status (new_rows db (rr_db (MobileDriver_run_test_case e c db w)) ! d) = ''skipped''
      \<longrightarrow> rs_status (new_rows db (rr_db (MobileDriver_run_test_case e c db w)) ! i) = ''skipped'' \<and>
          i \<notin> set (rr_calls (MobileDriver_run_test_case e c db w)))"
  unfolding APIDriver_run_eq MobileDriver_run_eq
  using WebDriver_dependency_skip [OF assms, of db e w] by blast

theorem dependent_step_skipped_witness:
  "1 < length (case_steps dependent_case)
   \<and> dict_get (case_steps dependent_case ! 1) ''depends_on'' = Some (VInt (int 0))
   \<and> rs_status (new_rows empty_database
         (rr_db (WebDriver_run_test_case always_fails dependent_case empty_database ())) ! 0) = ''failed''
   \<and> rs_status (new_rows empty_database
         (rr_db (WebDriver_run_test_case always_fails dependent_case empty_database ())) ! 1) = ''skipped''
   \<and> 1 \<notin> set (rr_calls (WebDriver_run_test_case always_fails dependent_case empty_database ()))
   \<and> rs_status (new_rows empty_database
         (rr_db (APIDriver_run_test_case always_fails dependent_case empty_database ())) ! 1) = ''skipped''
   \<and> 1 \<notin> set (rr_calls (APIDriver_run_test_case always_fails dependent_case empty_database ()))
   \<and> rs_status (new_rows empty_database
         (rr_db (MobileDriver_run_test_case always_fails dependent_case empty_database ())) ! 1) = ''skipped''
   \<and> 1 \<notin> set (rr_calls (MobileDriver_run_test_case always_fails dependent_case empty_database ()))"
proof -
  have h1: "1 < length (case_steps dependent_case)"
    by (simp add: dependent_case_def)
  have h2: "dict_get (case_steps dependent_case ! 1) ''depends_on'' = Some (VInt (int 0))"
    by (simp add: dependent_case_def dict_get_def)
  have h3: "(0::nat) < 1" by simp
  have fw: "rs_status (new_rows empty_database
         (rr_db (WebDriver_run_test_case always_fails dependent_case empty_database ())) ! 0) = ''failed''"
    by code_simp
  have fa: "rs_status (new_rows empty_database
         (rr_db (APIDriver_run_test_case always_fails dependent_case empty_database ())) ! 0) = ''failed''"
    by code_simp
  have fm: "rs_status (new_rows empty_database
         (rr_db (MobileDriver_run_test_case always_fails dependent_case empty_database ())) ! 0) = ''failed''"
    by code_simp
  show ?thesis
    using h1 h2 fw fa fm
      dependent_step_skipped [OF h1 h2 h3, of empty_database always_fails "()"]
    by blast
qed

text \<open>
  Claim C5. The claim says that a test case with no steps gets the aggregate status
  skipped. The drivers compute something else. For every case that can start and has no
  step, \<^verbatim>\<open>executed == 0\<close> but \<^verbatim>\<open>skipped_steps > 0\<close> is false, so the first branch is
  not taken, and the second (\<^verbatim>\<open>failed_steps == 0 and skipped_steps == 0\<close>) stores
  passed, in the web driver and in the API driver.
\<close>

theorem empty_case_recorded_passed:
  assumes "run_can_start c db" and "case_steps c = []"
  shows "run_status_of (rr_db (WebDriver_run_test_case e c db w))
             (rr_run_id (WebDriver_run_test_case e c db w)) = Some ''passed''
       \<and> run_status_of (rr_db (APIDriver_run_test_case e c db w))
             (rr_run_id (APIDriver_run_test_case e c db w)) = Some ''passed''"
proof -
  obtain run_id db2 s where sh:
    "s = WebDriver_steps e run_id 0 (case_steps c)
           \<lparr>st_db = db2, st_world = w, passed_steps = 0, failed_steps = 0,
            skipped_steps = 0, error_message = None, st_calls = []\<rparr>"
    "list_ex (\<lambda>r. tr_id r = run_id) (test_runs (st_db s))"
    "WebDriver_run_test_case e c db w =
       \<lparr>rr_run_id = run_id,
        rr_db = update_test_run (st_db s) run_id
           (spec_aggregate_status (passed_steps s) (failed_steps s) (skipped_steps s))
           (error_message s),
        rr_world = st_world s, rr_calls = st_calls s\<rparr>"
    using WebDriver_run_shape [of e c w db] by blast
  have s: "passed_steps s = 0" "failed_steps s = 0" "skipped_steps s = 0"
    by (simp_all add: sh(1) assms(2))
  have "spec_aggregate_status (passed_steps s) (failed_steps s) (skipped_steps s) = ''passed''"
    unfolding s by (simp add: spec_aggregate_status_def)
  then have "run_status_of (rr_db (WebDriver_run_test_case e c db w))
       (rr_run_id (WebDriver_run_test_case e c db w)) = Some ''passed''"
    unfolding sh(3) by (simp only: run_result.simps run_status_of_update [OF sh(2)])
  then show ?thesis unfolding APIDriver_run_eq by simp
qed

theorem empty_case_recorded_passed_witness:
  "run_can_start empty_case empty_database
   \<and> case_steps empty_case = []
   \<and> run_status_of
         (rr_db (WebDriver_run_test_case always_fails empty_case empty_database ()))
         (rr_run_id (WebDriver_run_test_case always_fails empty_case empty_database ()))
       = Some ''passed''
   \<and> run_status_of
         (rr_db (APIDriver_run_test_case always_fails empty_case empty_database ()))
         (rr_run_id (APIDriver_run_test_case always_fails empty_case empty_database ()))
       = Some ''passed''"
proof -
  have h1: "run_can_start empty_case empty_database"
    by (simp add: run_can_start_def add_test_case_returns_def empty_case_def)
  have h2: "case_steps empty_case = []"
    by (simp add: empty_case_def)
  show ?thesis
    using h1 h2 empty_case_recorded_passed [OF h1 h2, of always_fails "()"] by simp
qed

lemma deactivate_length: "length (deactivate now c k rows) = length rows"
  by (simp add: deactivate_def)

lemma deactivate_identity: "map row_identity (deactivate now c k rows) = map row_identity rows"
  by (induction rows) (simp_all add: deactivate_def row_identity_def)

lemma deactivate_same_key:
  "filter (same_key c k) (deactivate now c k rows) = deactivate now c k (filter (same_key c k) rows)"
  by (induction rows) (simp_all add: deactivate_def same_key_def)

lemma deactivate_versions: "map version (deactivate now c k rows) = map version rows"
  by (induction rows) (simp_all add: deactivate_def)

lemma max_version_deactivate:
  "max_version c k (deactivate now c k rows) = max_version c k rows"
  by (simp add: max_version_def deactivate_same_key deactivate_versions)

lemma deactivate_no_active:
  "filter (\<lambda>r. same_key c k r \<and> is_active r = 1) (deactivate now c k rows) = []"
  by (induction rows) (simp_all add: deactivate_def same_key_def)

lemma deactivate_other_keys:
  "filter (\<lambda>r. \<not> same_key c k r) (deactivate now c k rows) = filter (\<lambda>r. \<not> same_key c k r) rows"
  by (induction rows) (simp_all add: deactivate_def same_key_def)

lemma max_version_Max:
  "max_version c k rows =
     (if filter (same_key c k) rows = [] then None
      else Some (Max (set (map version (filter (same_key c k) rows)))))"
proof (cases "map version (filter (same_key c k) rows)")
  case Nil
  then show ?thesis by (simp add: max_version_def)
next
  case (Cons v vs)
  then have "filter (same_key c k) rows \<noteq> []" by auto
  moreover have "Max (set (v # vs)) = fold max vs v" by (rule Max.set_eq_fold)
  ultimately show ?thesis using Cons by (simp add: max_version_def)
qed

lemma insert_locator_ok:
  assumes "insert_locator c k ty v n now st = (None, st')"
  shows "locators st' =
           locators st @
             [\<lparr>loc_id = locators_seq st + 1, loc_context = c, loc_step_key = k,
               locator_type = ty, locator_value = v, version = n, is_active = 1,
               created_at = now, updated_at = now\<rparr>]"
  using assms by (auto simp: insert_locator_def split: if_splits)

lemma add_locator_post:
  assumes ok: "insert_locator c k ty v
                 (case max_version c k (locators st1) of Some m \<Rightarrow> m + 1 | None \<Rightarrow> 1)
                 now2 st1 = (None, st')"
    and st1: "locators st1 = deactivate now1 c k (locators st)"
    and ty: "dict_get loc ''type'' = Some ty"
    and v: "dict_get loc ''value'' = Some v"
  shows "spec_add_locator_post c k loc st st'"
proof -
  define n where "n = (case max_version c k (locators st1) of Some m \<Rightarrow> m + 1 | None \<Rightarrow> 1)"
  define new where
    "new = \<lparr>loc_id = locators_seq st1 + 1, loc_context = c, loc_step_key = k,
            locator_type = ty, locator_value = v, version = n, is_active = 1,
            created_at = now2, updated_at = now2\<rparr>"
  have rows: "locators st' = deactivate now1 c k (locators st) @ [new]"
    using insert_locator_ok [OF ok] by (simp add: st1 new_def n_def)
  have last: "last (locators st') = new" and bl: "butlast (locators st') = deactivate now1 c k (locators st)"
    by (simp_all add: rows)
  have new_key: "same_key c k new" and new_active: "is_active new = 1"
    by (simp_all add: new_def same_key_def)
  have 1: "length (locators st') = length (locators st) + 1"
    by (simp add: rows deactivate_length)
  have 2: "filter (\<lambda>r. same_key c k r \<and> is_active r = 1) (locators st') = [new]"
    by (simp add: rows deactivate_no_active new_key new_active)
  have 3: "dict_get loc ''type'' = Some (locator_type new)"
          "dict_get loc ''value'' = Some (locator_value new)"
    by (simp_all add: ty v new_def)
  have "n = (case max_version c k (locators st) of Some m \<Rightarrow> m + 1 | None \<Rightarrow> 1)"
    by (simp add: n_def st1 max_version_deactivate)
  then have 4: "version new =
        (if filter (same_key c k) (locators st) = [] then 1
         else Max (set (map version (filter (same_key c k) (locators st)))) + 1)"
    by (simp add: new_def max_version_Max)
  have 5: "map row_identity (butlast (locators st')) = map row_identity (locators st)"
    by (simp add: bl deactivate_identity)
  have "filter (\<lambda>r. same_key c k r \<and> is_active r = 1) (butlast (locators st')) = []"
    by (simp add: bl deactivate_no_active)
  then have 6: "list_all (\<lambda>r. same_key c k r \<longrightarrow> is_active r \<noteq> 1) (butlast (locators st'))"
    by (simp add: filter_empty_conv list_all_iff)
  have 7: "filter (\<lambda>r. \<not> same_key c k r) (butlast (locators st')) =
           filter (\<lambda>r. \<not> same_key c k r) (locators st)"
    by (simp add: bl deactivate_other_keys)
  show ?thesis
    unfolding spec_add_locator_post_def Let_def last
    using 1 2 new_key 3 4 5 6 7 by blast
qed

lemma LocatorRepo_add_locator_post:
  assumes "LocatorRepo_add_locator now1 now2 c k loc st = (None, st')"
  shows "spec_add_locator_post c k loc st st'"
proof -
  have nf: "\<not> falsy (dict_get loc ''type'')" "\<not> falsy (dict_get loc ''value'')"
    using assms by (auto simp: LocatorRepo_add_locator_def Let_def split: if_splits)
  then obtain ty v where tv: "dict_get loc ''type'' = Some ty" "dict_get loc ''value'' = Some v"
    by (auto simp: falsy_def split: option.splits)
  define st1 where "st1 = st\<lparr>locators := deactivate now1 c k (locators st)\<rparr>"
  have "insert_locator c k ty v
          (case max_version c k (locators st1) of Some m \<Rightarrow> m + 1 | None \<Rightarrow> 1)
          now2 st1 = (None, st')"
    using assms nf by (simp add: LocatorRepo_add_locator_def Let_def tv st1_def)
  then show ?thesis
    by (rule add_locator_post) (simp_all add: st1_def tv)
qed

lemma LocatorRepository_add_locator_eq:
  "LocatorRepository_add_locator now c k loc st = LocatorRepo_add_locator now now c k loc st"
  by (simp add: LocatorRepository_add_locator_def LocatorRepo_add_locator_def)

text \<open>
  Claim C2. After every call of \<^verbatim>\<open>add_locator(context, step_key, locator)\<close> that
  returns, in either repository, exactly one stored row of that key is active, the newly
  inserted one; its version is one more than the largest version stored for the key
  before, and 1 when there was none; and all earlier rows are still stored, those of
  the key inactive.
\<close>

theorem add_locator_one_active_next_version:
  "(LocatorRepo_add_locator now1 now2 ctx step_key locator st = (None, st')
      \<longrightarrow> spec_add_locator_post ctx step_key locator st st')
   \<and> (LocatorRepository_add_locator now ctx step_key locator st = (None, st'')
      \<longrightarrow> spec_add_locator_post ctx step_key locator st st'')"
  using LocatorRepo_add_locator_post [of now1 now2 ctx step_key locator st st']
    LocatorRepo_add_locator_post [of now now ctx step_key locator st st'']
  unfolding LocatorRepository_add_locator_eq by blast

theorem add_locator_one_active_next_version_witness:
  "LocatorRepo_add_locator ''t1'' ''t2'' ''ui'' ''click:Login'' xpath_locator one_locator_store
     = (None, two_locator_store ''t1'' ''t2'')
   \<and> spec_add_locator_post ''ui'' ''click:Login'' xpath_locator one_locator_store
         (two_locator_store ''t1'' ''t2'')
   \<and> LocatorRepository_add_locator ''t1'' ''ui'' ''click:Login'' xpath_locator one_locator_store
     = (None, two_locator_store ''t1'' ''t1'')
   \<and> spec_add_locator_post ''ui'' ''click:Login'' xpath_locator one_locator_store
         (two_locator_store ''t1'' ''t1'')"
proof -
  have a: "LocatorRepo_add_locator ''t1'' ''t2'' ''ui'' ''click:Login'' xpath_locator one_locator_store
             = (None, two_locator_store ''t1'' ''t2'')"
    by code_simp
  have b: "LocatorRepository_add_locator ''t1'' ''ui'' ''click:Login'' xpath_locator one_locator_store
             = (None, two_locator_store ''t1'' ''t1'')"
    by code_simp
  show ?thesis
    using a b
      add_locator_one_active_next_version
        [of "''t1''" "''t2''" "''ui''" "''click:Login''" xpath_locator one_locator_store
            "two_locator_store ''t1'' ''t2''" "''t1''" "two_locator_store ''t1'' ''t1''"]
    by blast
qed

text \<open>
  Claim C10. When the locator mapping has no \<^verbatim>\<open>type\<close> or no \<^verbatim>\<open>value\<close>, or an empty
  one, \<^verbatim>\<open>add_locator\<close> raises \<^verbatim>\<open>ValueError\<close> and the store is as it was: no row is
  added, and the active locator of the key is the one it was before.
\<close>

theorem add_locator_incomplete_locator:
  assumes "falsy (dict_get locator ''type'') \<or> falsy (dict_get locator ''value'')"
  shows "LocatorRepo_add_locator now1 now2 ctx step_key locator st =
           (Some (ValueError ''Locator must have 'type' and 'value' fields''), st)
       \<and> LocatorRepository_add_locator now ctx step_key locator st =
           (Some (ValueError ''Locator must have 'type' and 'value' fields''), st)
       \<and> LocatorRepo_get_locator ctx step_key
           (snd (LocatorRepo_add_locator now1 now2 ctx step_key locator st)) =
         LocatorRepo_get_locator ctx step_key st
       \<and> LocatorRepository_get_locator ctx step_key
           (snd (LocatorRepository_add_locator now ctx step_key locator st)) =
         LocatorRepository_get_locator ctx step_key st"
  using assms by (simp add: LocatorRepo_add_locator_def LocatorRepository_add_locator_def)

theorem add_locator_incomplete_locator_witness:
  "falsy (dict_get [(''type'', ''css''), (''value'', [])] ''value'')
   \<and> LocatorRepo_add_locator ''t1'' ''t2'' ''ui'' ''click:Login''
        [(''type'', ''css''), (''value'', [])] one_locator_store =
       (Some (ValueError ''Locator must have 'type' and 'value' fields''), one_locator_store)
   \<and> LocatorRepository_add_locator ''t1'' ''ui'' ''click:Login''
        [(''type'', ''css''), (''value'', [])] one_locator_store =
       (Some (ValueError ''Locator must have 'type' and 'value' fields''), one_locator_store)
   \<and> LocatorRepository_get_locator ''ui'' ''click:Login''
        (snd (LocatorRepository_add_locator ''t1'' ''ui'' ''click:Login''
               [(''type'', ''css''), (''value'', [])] one_locator_store)) =
       Some (''css'', ''#login'')"
proof -
  have h: "falsy (dict_get [(''type'', ''css''), (''value'', [])] ''value'')"
    by (simp add: falsy_def dict_get_def)
  then have h': "falsy (dict_get [(''type'', ''css''), (''value'', [])] ''type'') \<or>
                 falsy (dict_get [(''type'', ''css''), (''value'', [])] ''value'')" ..
  have g: "LocatorRepository_get_locator ''ui'' ''click:Login'' one_locator_store =
             Some (''css'', ''#login'')"
    by code_simp
  show ?thesis
    using h g
      add_locator_incomplete_locator
        [OF h', of "''t1''" "''t2''" "''ui''" "''click:Login''" one_locator_store "''t1''"]
    by simp
qed

text \<open>
  The step key of \<^verbatim>\<open>LocatorRepository\<close> is the one the specification words: the same
  preferences in the same order, \<^verbatim>\<open>target\<close> last among the descriptive fields.
\<close>

lemma dict_has_get: "dict_has d k \<longleftrightarrow> dict_get d k \<noteq> None"
  by (simp add: dict_has_def dict_get_def)

lemma first_present_find:
  "first_present keys step =
     (case find (dict_has step) keys of None \<Rightarrow> None | Some k \<Rightarrow> dict_get step k)"
  by (induction keys) simp_all

lemma LocatorRepository_compute_step_key_spec:
  "LocatorRepository_compute_step_key repr step = spec_compute_step_key repr step"
proof (cases "dict_get step ''selector''")
  case (Some sel)
  then show ?thesis
    by (simp add: LocatorRepository_compute_step_key_def spec_compute_step_key_def dict_has_get)
next
  case None
  note sel = None
  show ?thesis
  proof (cases "dict_get step ''locator''")
    case (Some loc)
    then show ?thesis using sel
      by (simp add: LocatorRepository_compute_step_key_def spec_compute_step_key_def dict_has_get)
  next
    case None
    show ?thesis
    proof (cases "find (dict_has step) spec_step_key_fields")
      case None
      then show ?thesis using sel \<open>dict_get step ''locator'' = None\<close>
        by (simp add: LocatorRepository_compute_step_key_def spec_compute_step_key_def
              dict_has_get first_present_find spec_step_key_fields_def [symmetric])
    next
      case (Some k)
      then have "dict_has step k" by (auto simp: find_Some_iff)
      then obtain v where "dict_get step k = Some v" by (auto simp: dict_has_get)
      then show ?thesis using sel \<open>dict_get step ''locator'' = None\<close> Some
        by (simp add: LocatorRepository_compute_step_key_def spec_compute_step_key_def
              dict_has_get first_present_find spec_step_key_fields_def [symmetric])
    qed
  qed
qed

text \<open>
  Claim C6. The claim gives the ordered list of descriptive fields as element, label,
  text, value, placeholder, target. \<^verbatim>\<open>LocatorRepository.compute_step_key\<close> has this list
  (lemma \<open>LocatorRepository_compute_step_key_spec\<close>). \<^verbatim>\<open>LocatorRepo.compute_step_key\<close>
  stops at placeholder: for a step described by \<^verbatim>\<open>target\<close> alone it falls through to
  the serialisation of the whole step, where the other repository and the specification
  give the target.
\<close>

theorem LocatorRepo_compute_step_key_without_target:
  "LocatorRepo_compute_step_key repr target_step =
     ''click:{\"action\": \"click\", \"target\": \"Login\"}''
   \<and> LocatorRepository_compute_step_key repr target_step = ''click:Login''
   \<and> spec_compute_step_key repr target_step = ''click:Login''"
  by code_simp

text \<open>
  Claim C3. The claim says that a failure followed by a successful self-heal does not
  increment the attempt counter. \<^verbatim>\<open>MCPBase.run\<close> increments \<^verbatim>\<open>attempt\<close> first and
  calls \<^verbatim>\<open>_self_heal\<close> afterwards, so the healed failure is counted. With
  \<^verbatim>\<open>max_retries = 2\<close>, a step that always fails, and a hook that heals the first failure
  only, the code raises at the second execution, with the attempts 1 and 2 attached and
  no sleep; the loop of the specification executes the step three times. Both hold for
  any fuel that suffices.
\<close>

theorem MCPBase_run_healed_failure_counts:
  "MCPBase_run (Suc (Suc n)) always_raises heals_first_only 2 [click_step] 0 =
     Some (Some ''boom'',
           \<lparr>es_world = 2, es_attachments = [(1, 1, ''boom''), (1, 2, ''boom'')],
            es_sleeps = 0, es_executions = [0, 0]\<rparr>)
   \<and> spec_attempts (Suc (Suc (Suc n))) always_raises heals_first_only 2 0 click_step 0
       \<lparr>es_world = 0, es_attachments = [], es_sleeps = 0, es_executions = []\<rparr> =
     Some (Some ''boom'',
           \<lparr>es_world = 3,
            es_attachments = [(1, 1, ''boom''), (1, 1, ''boom''), (1, 2, ''boom'')],
            es_sleeps = 1, es_executions = [0, 0, 0]\<rparr>)"
  by (simp add: MCPBase_run_def always_raises_def heals_first_only_def)

text \<open>The keyword fallback of the router, as membership tests in the order of its table.\<close>

lemma MCPRouter_heuristic_cases:
  "MCPRouter_heuristic str_lower config text =
     (if list_ex (\<lambda>kw. contains (str_lower text) (str_lower kw)) (ui_keywords config) then ''ui''
      else if list_ex (\<lambda>kw. contains (str_lower text) (str_lower kw)) (api_keywords config) then ''api''
      else if list_ex (\<lambda>kw. contains (str_lower text) (str_lower kw)) (mobile_keywords config) then ''mobile''
      else if list_ex (\<lambda>kw. contains (str_lower text) (str_lower kw)) (sql_keywords config) then ''sql''
      else ''api'')"
  by (simp add: MCPRouter_heuristic_def)

text \<open>
  Claim C7, as the code has it. With a declared, non-empty type the router returns it
  lower-cased. Otherwise it serialises the steps; when it has a client and the client's
  \<^verbatim>\<open>classify\<close> returns, the router returns that answer as it is, whatever it is; when
  it has no client, or the call raises, it returns the first of ui, api, mobile, sql that
  has a keyword which, lower-cased, occurs in the lower-cased text, and \<^verbatim>\<open>api\<close> when
  none has. This holds whatever function \<^verbatim>\<open>str.lower\<close> is.
\<close>

theorem MCPRouter_classify_precedence:
  "(tc_type tc = Some t \<and> t \<noteq> [] \<longrightarrow> MCPRouter_classify str_lower llm config tc = Inr (str_lower t))
   \<and> ((tc_type tc = None \<or> tc_type tc = Some []) \<and> combined_text_of tc = Some text \<and>
        llm = Some classify \<and> classify text = Inr category
        \<longrightarrow> MCPRouter_classify str_lower llm config tc = Inr category)
   \<and> ((tc_type tc = None \<or> tc_type tc = Some []) \<and> combined_text_of tc = Some text \<and>
        (llm = None \<or> llm = Some classify \<and> classify text = Inl exc)
        \<longrightarrow> MCPRouter_classify str_lower llm config tc = Inr (MCPRouter_heuristic str_lower config text))
   \<and> MCPRouter_heuristic str_lower config text =
        (if list_ex (\<lambda>kw. contains (str_lower text) (str_lower kw)) (ui_keywords config) then ''ui''
         else if list_ex (\<lambda>kw. contains (str_lower text) (str_lower kw)) (api_keywords config) then ''api''
         else if list_ex (\<lambda>kw. contains (str_lower text) (str_lower kw)) (mobile_keywords config)
           then ''mobile''
         else if list_ex (\<lambda>kw. contains (str_lower text) (str_lower kw)) (sql_keywords config) then ''sql''
         else ''api'')"
proof (intro conjI impI)
  assume "tc_type tc = Some t \<and> t \<noteq> []"
  then show "MCPRouter_classify str_lower llm config tc = Inr (str_lower t)"
    by (cases t) (simp_all add: MCPRouter_classify_def)
next
  assume a: "(tc_type tc = None \<or> tc_type tc = Some []) \<and> combined_text_of tc = Some text \<and>
        llm = Some classify \<and> classify text = Inr category"
  then show "MCPRouter_classify str_lower llm config tc = Inr category"
    by (auto simp: MCPRouter_classify_def)
next
  assume a: "(tc_type tc = None \<or> tc_type tc = Some []) \<and> combined_text_of tc = Some text \<and>
        (llm = None \<or> llm = Some classify \<and> classify text = Inl exc)"
  then show "MCPRouter_classify str_lower llm config tc = Inr (MCPRouter_heuristic str_lower config text)"
    by (auto simp: MCPRouter_classify_def)
next
  show "MCPRouter_heuristic str_lower config text =
        (if list_ex (\<lambda>kw. contains (str_lower text) (str_lower kw)) (ui_keywords config) then ''ui''
         else if list_ex (\<lambda>kw. contains (str_lower text) (str_lower kw)) (api_keywords config) then ''api''
         else if list_ex (\<lambda>kw. contains (str_lower text) (str_lower kw)) (mobile_keywords config)
           then ''mobile''
         else if list_ex (\<lambda>kw. contains (str_lower text) (str_lower kw)) (sql_keywords config) then ''sql''
         else ''api'')"
    by (rule MCPRouter_heuristic_cases)
qed

theorem MCPRouter_classify_precedence_witness:
  "MCPRouter_classify ascii_lower (Some answers_web) click_config typed_case = Inr ''ui''
   \<and> combined_text_of click_case = Some ''{\"action\": \"click\"}''
   \<and> MCPRouter_classify ascii_lower (Some answers_web) click_config click_case = Inr ''web''
   \<and> MCPRouter_classify ascii_lower (Some raises_timeout) click_config click_case = Inr ''ui''
   \<and> MCPRouter_classify ascii_lower None no_keywords click_case = Inr ''api''"
proof -
  have ty: "tc_type typed_case = Some ''UI'' \<and> ''UI'' \<noteq> []"
    by (simp add: typed_case_def)
  have nt: "tc_type click_case = None \<or> tc_type click_case = Some []"
    by (simp add: click_case_def)
  have ct: "combined_text_of click_case = Some ''{\"action\": \"click\"}''"
    by code_simp
  have w: "answers_web ''{\"action\": \"click\"}'' = Inr ''web''"
    by (simp add: answers_web_def)
  have r: "raises_timeout ''{\"action\": \"click\"}'' = Inl (OtherError ''timeout'')"
    by (simp add: raises_timeout_def)
  have l: "ascii_lower ''UI'' = ''ui''" by code_simp
  have h1: "MCPRouter_heuristic ascii_lower click_config ''{\"action\": \"click\"}'' = ''ui''" by code_simp
  have h2: "MCPRouter_heuristic ascii_lower no_keywords ''{\"action\": \"click\"}'' = ''api''" by code_simp
  note T1 = MCPRouter_classify_precedence
    [of typed_case "''UI''" ascii_lower "Some answers_web" click_config "''x''" answers_web "''x''" "OtherError ''x''"]
  note T2 = MCPRouter_classify_precedence
    [of click_case "''x''" ascii_lower "Some answers_web" click_config "''{\"action\": \"click\"}''"
        answers_web "''web''" "OtherError ''x''"]
  note T3 = MCPRouter_classify_precedence
    [of click_case "''x''" ascii_lower "Some raises_timeout" click_config "''{\"action\": \"click\"}''"
        raises_timeout "''x''" "OtherError ''timeout''"]
  note T4 = MCPRouter_classify_precedence
    [of click_case "''x''" ascii_lower None no_keywords "''{\"action\": \"click\"}''"
        raises_timeout "''x''" "OtherError ''timeout''"]
  have 1: "MCPRouter_classify ascii_lower (Some answers_web) click_config typed_case = Inr ''ui''"
    using T1 ty l by simp
  have 2: "MCPRouter_classify ascii_lower (Some answers_web) click_config click_case = Inr ''web''"
    using T2 nt ct w by blast
  have 3: "MCPRouter_classify ascii_lower (Some raises_timeout) click_config click_case = Inr ''ui''"
    using T3 nt ct r h1 by simp
  have 4: "MCPRouter_classify ascii_lower None no_keywords click_case = Inr ''api''"
    using T4 nt ct h2 by simp
  show ?thesis using 1 ct 2 3 4 by blast
qed

text \<open>
  Claim C7 as stated fails twice, on an ASCII case, where \<^verbatim>\<open>str.lower\<close> and
  \<^verbatim>\<open>str.strip\<close> are the functions defined above. A client's answer that is none of the four categories
  is returned as it is, although the keyword check would say \<^verbatim>\<open>ui\<close> for this case.
  And with the \<^verbatim>\<open>LLMAgent\<close> as the client, whose \<^verbatim>\<open>classify\<close> does fall back to keywords
  on such an answer, a text that matches no keyword gives \<^verbatim>\<open>ui\<close>, not \<^verbatim>\<open>api\<close>.
\<close>

theorem MCPRouter_classify_unrecognized_counterexample:
  "MCPRouter_classify ascii_lower (Some answers_web) click_config click_case = Inr ''web''
   \<and> MCPRouter_heuristic ascii_lower click_config (the (combined_text_of click_case)) = ''ui''
   \<and> MCPRouter_classify ascii_lower (Some agent_client) no_keywords click_case = Inr ''ui''"
  by code_simp

lemma takeWhile_first_line:
  assumes "CHR 0x0A \<notin> set name" and "rest = [] \<or> hd rest = CHR 0x0A"
  shows "takeWhile (\<lambda>c. c \<noteq> CHR 0x0A) (name @ rest) = name"
  using assms
proof (induction name)
  case Nil
  then show ?case by (cases rest) simp_all
next
  case (Cons c cs)
  then show ?case by auto
qed

lemma re_match_group_pattern:
  "re_match_group literal cmd = Some name \<longleftrightarrow> spec_pattern literal cmd name"
proof
  assume m: "re_match_group literal cmd = Some name"
  then have p: "prefix literal cmd"
    and n: "name = takeWhile (\<lambda>c. c \<noteq> CHR 0x0A) (drop (length literal) cmd)"
    and ne: "name \<noteq> []"
    by (auto simp: re_match_group_def Let_def split: if_splits)
  define tail where "tail = drop (length literal) cmd"
  have cmd: "cmd = literal @ tail" using p by (auto simp: tail_def prefix_def)
  have tail: "tail = name @ dropWhile (\<lambda>c. c \<noteq> CHR 0x0A) tail"
    unfolding n tail_def [symmetric] by simp
  have nl: "CHR 0x0A \<notin> set name"
    unfolding n using set_takeWhileD by fastforce
  have pre: "prefix (literal @ name) cmd"
    by (subst cmd, subst tail) simp
  have "drop (length literal + length name) cmd = drop (length name) tail"
    by (subst cmd) simp
  also have "\<dots> = dropWhile (\<lambda>c. c \<noteq> CHR 0x0A) tail"
    by (subst tail) simp
  finally have rest: "drop (length literal + length name) cmd = dropWhile (\<lambda>c. c \<noteq> CHR 0x0A) tail" .
  have "dropWhile (\<lambda>c. c \<noteq> CHR 0x0A) tail = [] \<or> hd (dropWhile (\<lambda>c. c \<noteq> CHR 0x0A) tail) = CHR 0x0A"
    using hd_dropWhile [of "\<lambda>c. c \<noteq> CHR 0x0A" tail] by blast
  then show "spec_pattern literal cmd name"
    unfolding spec_pattern_def Let_def rest using ne nl pre by blast
next
  assume s: "spec_pattern literal cmd name"
  define rest where "rest = drop (length literal + length name) cmd"
  from s have ne: "name \<noteq> []" and nl: "CHR 0x0A \<notin> set name"
    and pre: "prefix (literal @ name) cmd" and r: "rest = [] \<or> hd rest = CHR 0x0A"
    by (simp_all add: spec_pattern_def Let_def rest_def)
  have cmd: "cmd = literal @ name @ rest"
    using pre by (auto simp: rest_def prefix_def)
  have "takeWhile (\<lambda>c. c \<noteq> CHR 0x0A) (drop (length literal) cmd) = name"
    by (subst cmd) (simp add: takeWhile_first_line [OF nl r])
  moreover have "prefix literal cmd" by (subst cmd) simp
  ultimately show "re_match_group literal cmd = Some name"
    using ne by (simp add: re_match_group_def)
qed

lemma spec_pattern_first_char:
  "spec_pattern (a # literal) cmd name \<Longrightarrow> hd cmd = a"
  by (auto simp: spec_pattern_def prefix_def)

lemma re_match_group_other_literal:
  assumes "spec_pattern (a # literal) cmd name" and "a \<noteq> b"
  shows "re_match_group (b # literal') cmd = None"
proof -
  have "hd cmd = a" "cmd \<noteq> []"
    using assms(1) by (auto simp: spec_pattern_def prefix_def)
  then have "\<not> prefix (b # literal') cmd"
    using assms(2) by (cases cmd) simp_all
  then show ?thesis by (simp add: re_match_group_def)
qed

text \<open>
  Claim C9, as the code has it, whatever functions \<^verbatim>\<open>str.strip\<close>, \<^verbatim>\<open>str.lower\<close> and
  \<^verbatim>\<open>str.title\<close> are. On the command, stripped and lower-cased, the three patterns are
  recognised and nothing else is. For each the SQL text is the statement
  with the title-cased name written into it as a quoted literal, and the assertion is
  the one of the pattern: after an insertion the name is counted at least once, for a
  verification the fetched count is positive, after a deletion the name is counted zero
  times. Any other command comes back unchanged, with no assertion.
\<close>

theorem english_to_sql_patterns:
  "(spec_pattern ''insert user '' (str_lower (str_strip command)) name \<longrightarrow>
      english_to_sql str_strip str_lower str_title command =
        \<lparr>sql = ''INSERT INTO users (name) VALUES ('' @ quoted (str_title name) @ '');'',
         assertion = Some (AssertInserted (str_title name))\<rparr>)
   \<and> (spec_pattern ''verify exists user '' (str_lower (str_strip command)) name \<longrightarrow>
      english_to_sql str_strip str_lower str_title command =
        \<lparr>sql = ''SELECT COUNT(*) FROM users WHERE name='' @ quoted (str_title name) @ '';'',
         assertion = Some (AssertExists (str_title name))\<rparr>)
   \<and> (spec_pattern ''delete user '' (str_lower (str_strip command)) name \<longrightarrow>
      english_to_sql str_strip str_lower str_title command =
        \<lparr>sql = ''DELETE FROM users WHERE name='' @ quoted (str_title name) @ '';'',
         assertion = Some (AssertDeleted (str_title name))\<rparr>)
   \<and> ((\<forall>n. \<not> spec_pattern ''insert user '' (str_lower (str_strip command)) n) \<and>
       (\<forall>n. \<not> spec_pattern ''verify exists user '' (str_lower (str_strip command)) n) \<and>
       (\<forall>n. \<not> spec_pattern ''delete user '' (str_lower (str_strip command)) n) \<longrightarrow>
      english_to_sql str_strip str_lower str_title command = \<lparr>sql = command, assertion = None\<rparr>)
   \<and> (fst (run_assertion (AssertInserted name) cur) = None \<longleftrightarrow> count_users name cur > 0)
   \<and> (fst (run_assertion (AssertExists name) cur) = None \<longleftrightarrow>
        cur_pending cur \<noteq> [] \<and> hd (cur_pending cur) > 0)
   \<and> (fst (run_assertion (AssertDeleted name) cur) = None \<longleftrightarrow> count_users name cur = 0)"
proof (intro conjI impI)
  assume "spec_pattern ''insert user '' (str_lower (str_strip command)) name"
  then have "re_match_group ''insert user '' (str_lower (str_strip command)) = Some name"
    by (simp only: re_match_group_pattern)
  then show "english_to_sql str_strip str_lower str_title command =
        \<lparr>sql = ''INSERT INTO users (name) VALUES ('' @ quoted (str_title name) @ '');'',
         assertion = Some (AssertInserted (str_title name))\<rparr>"
    by (simp add: english_to_sql_def Let_def)
next
  assume a: "spec_pattern ''verify exists user '' (str_lower (str_strip command)) name"
  then have "re_match_group ''verify exists user '' (str_lower (str_strip command)) = Some name"
    by (simp only: re_match_group_pattern)
  moreover have "re_match_group ''insert user '' (str_lower (str_strip command)) = None"
    by (rule re_match_group_other_literal [OF a]) simp
  ultimately show "english_to_sql str_strip str_lower str_title command =
        \<lparr>sql = ''SELECT COUNT(*) FROM users WHERE name='' @ quoted (str_title name) @ '';'',
         assertion = Some (AssertExists (str_title name))\<rparr>"
    by (simp add: english_to_sql_def Let_def)
next
  assume a: "spec_pattern ''delete user '' (str_lower (str_strip command)) name"
  then have "re_match_group ''delete user '' (str_lower (str_strip command)) = Some name"
    by (simp only: re_match_group_pattern)
  moreover have "re_match_group ''insert user '' (str_lower (str_strip command)) = None"
    by (rule re_match_group_other_literal [OF a]) simp
  moreover have "re_match_group ''verify exists user '' (str_lower (str_strip command)) = None"
    by (rule re_match_group_other_literal [OF a]) simp
  ultimately show "english_to_sql str_strip str_lower str_title command =
        \<lparr>sql = ''DELETE FROM users WHERE name='' @ quoted (str_title name) @ '';'',
         assertion = Some (AssertDeleted (str_title name))\<rparr>"
    by (simp add: english_to_sql_def Let_def)
next
  assume a: "(\<forall>n. \<not> spec_pattern ''insert user '' (str_lower (str_strip command)) n) \<and>
       (\<forall>n. \<not> spec_pattern ''verify exists user '' (str_lower (str_strip command)) n) \<and>
       (\<forall>n. \<not> spec_pattern ''delete user '' (str_lower (str_strip command)) n)"
  have "re_match_group l (str_lower (str_strip command)) = None"
    if "\<forall>n. \<not> spec_pattern l (str_lower (str_strip command)) n" for l
    using that re_match_group_pattern [of l "str_lower (str_strip command)"]
    by (cases "re_match_group l (str_lower (str_strip command))") auto
  with a show "english_to_sql str_strip str_lower str_title command = \<lparr>sql = command, assertion = None\<rparr>"
    by (simp add: english_to_sql_def Let_def)
next
  show "fst (run_assertion (AssertInserted name) cur) = None \<longleftrightarrow> count_users name cur > 0"
    by (simp add: Let_def)
next
  show "fst (run_assertion (AssertExists name) cur) = None \<longleftrightarrow>
        cur_pending cur \<noteq> [] \<and> hd (cur_pending cur) > 0"
    by (cases "cur_pending cur") (simp_all add: Let_def)
next
  show "fst (run_assertion (AssertDeleted name) cur) = None \<longleftrightarrow> count_users name cur = 0"
    by (simp add: Let_def)
qed

theorem english_to_sql_patterns_witness:
  "english_to_sql ascii_strip ascii_lower ascii_title ''  INSERT user john doe '' =
     \<lparr>sql = ''INSERT INTO users (name) VALUES ('' @ quoted ''John Doe'' @ '');'',
      assertion = Some (AssertInserted ''John Doe'')\<rparr>
   \<and> english_to_sql ascii_strip ascii_lower ascii_title ''verify exists user bob'' =
     \<lparr>sql = ''SELECT COUNT(*) FROM users WHERE name='' @ quoted ''Bob'' @ '';'',
      assertion = Some (AssertExists ''Bob'')\<rparr>
   \<and> english_to_sql ascii_strip ascii_lower ascii_title ''Delete User bob'' =
     \<lparr>sql = ''DELETE FROM users WHERE name='' @ quoted ''Bob'' @ '';'',
      assertion = Some (AssertDeleted ''Bob'')\<rparr>
   \<and> english_to_sql ascii_strip ascii_lower ascii_title ''SELECT 1'' = \<lparr>sql = ''SELECT 1'', assertion = None\<rparr>"
proof -
  have i: "spec_pattern ''insert user '' (ascii_lower (ascii_strip ''  INSERT user john doe '')) ''john doe''"
    by code_simp
  have v: "spec_pattern ''verify exists user '' (ascii_lower (ascii_strip ''verify exists user bob'')) ''bob''"
    by code_simp
  have d: "spec_pattern ''delete user '' (ascii_lower (ascii_strip ''Delete User bob'')) ''bob''"
    by code_simp
  have s: "ascii_lower (ascii_strip ''SELECT 1'') = ''select 1''" by code_simp
  have n: "(\<forall>n. \<not> spec_pattern ''insert user '' (ascii_lower (ascii_strip ''SELECT 1'')) n) \<and>
       (\<forall>n. \<not> spec_pattern ''verify exists user '' (ascii_lower (ascii_strip ''SELECT 1'')) n) \<and>
       (\<forall>n. \<not> spec_pattern ''delete user '' (ascii_lower (ascii_strip ''SELECT 1'')) n)"
    unfolding s by (simp add: spec_pattern_def)
  have t1: "ascii_title ''john doe'' = ''John Doe''" by code_simp
  have t2: "ascii_title ''bob'' = ''Bob''" by code_simp
  have 1: "english_to_sql ascii_strip ascii_lower ascii_title ''  INSERT user john doe '' =
     \<lparr>sql = ''INSERT INTO users (name) VALUES ('' @ quoted ''John Doe'' @ '');'',
      assertion = Some (AssertInserted ''John Doe'')\<rparr>"
    using english_to_sql_patterns
        [where str_lower = ascii_lower and str_strip = ascii_strip and str_title = ascii_title
          and command = "''  INSERT user john doe ''" and name = "''john doe''"] i
    unfolding t1 by blast
  have 2: "english_to_sql ascii_strip ascii_lower ascii_title ''verify exists user bob'' =
     \<lparr>sql = ''SELECT COUNT(*) FROM users WHERE name='' @ quoted ''Bob'' @ '';'',
      assertion = Some (AssertExists ''Bob'')\<rparr>"
    using english_to_sql_patterns
        [where str_lower = ascii_lower and str_strip = ascii_strip and str_title = ascii_title
          and command = "''verify exists user bob''" and name = "''bob''"] v
    unfolding t2 by blast
  have 3: "english_to_sql ascii_strip ascii_lower ascii_title ''Delete User bob'' =
     \<lparr>sql = ''DELETE FROM users WHERE name='' @ quoted ''Bob'' @ '';'',
      assertion = Some (AssertDeleted ''Bob'')\<rparr>"
    using english_to_sql_patterns
        [where str_lower = ascii_lower and str_strip = ascii_strip and str_title = ascii_title
          and command = "''Delete User bob''" and name = "''bob''"] d
    unfolding t2 by blast
  have 4: "english_to_sql ascii_strip ascii_lower ascii_title ''SELECT 1'' = \<lparr>sql = ''SELECT 1'', assertion = None\<rparr>"
    using english_to_sql_patterns
        [where str_lower = ascii_lower and str_strip = ascii_strip and str_title = ascii_title
          and command = "''SELECT 1''"] n by blast
  show ?thesis using 1 2 3 4 by blast
qed

text \<open>
  Claim C9 as stated says that the SQL statement is parameterized. On an ASCII
  command, where the three string methods are the functions defined above: The statement the
  code returns has no placeholder: the name is written into the text, so that two names
  give two statements. Only the queries inside the assertions bind the name as a
  parameter.
\<close>

theorem english_to_sql_not_parameterized_counterexample:
  "sql (english_to_sql ascii_strip ascii_lower ascii_title ''insert user bob'') =
     ''INSERT INTO users (name) VALUES ('' @ [CHR 0x27] @ ''Bob'' @ [CHR 0x27] @ '');''
   \<and> CHR ''?'' \<notin> set (sql (english_to_sql ascii_strip ascii_lower ascii_title ''insert user bob''))
   \<and> sql (english_to_sql ascii_strip ascii_lower ascii_title ''insert user bob'') \<noteq>
       sql (english_to_sql ascii_strip ascii_lower ascii_title ''insert user al'')"
  by code_simp

lemma fold_latest:
  "fold (\<lambda>x b. if vr_version_number x > vr_version_number b then x else b) rs r \<in> set (r # rs)
   \<and> (\<forall>x \<in> set (r # rs). vr_version_number x \<le>
         vr_version_number (fold (\<lambda>x b. if vr_version_number x > vr_version_number b then x else b) rs r))"
proof (induction rs arbitrary: r)
  case Nil
  show ?case by simp
next
  case (Cons a rs)
  show ?case
    using Cons.IH [of "if vr_version_number a > vr_version_number r then a else r"]
    by (auto split: if_splits)
qed

lemma latest_row_None:
  "latest_row st us = None \<longleftrightarrow> filter (\<lambda>r. vr_user_story r = us) (version_rows st) = []"
  by (simp add: latest_row_def split: list.splits)

lemma latest_row_Some:
  assumes "latest_row st us = Some b"
  shows "b \<in> set (filter (\<lambda>r. vr_user_story r = us) (version_rows st))"
    and "\<forall>x \<in> set (filter (\<lambda>r. vr_user_story r = us) (version_rows st)).
           vr_version_number x \<le> vr_version_number b"
proof -
  obtain r rs where f: "filter (\<lambda>r. vr_user_story r = us) (version_rows st) = r # rs"
    and b: "b = fold (\<lambda>x b. if vr_version_number x > vr_version_number b then x else b) rs r"
    using assms by (auto simp: latest_row_def split: list.splits)
  show "b \<in> set (filter (\<lambda>r. vr_user_story r = us) (version_rows st))"
    unfolding f b using fold_latest [of rs r] by blast
  show "\<forall>x \<in> set (filter (\<lambda>r. vr_user_story r = us) (version_rows st)).
           vr_version_number x \<le> vr_version_number b"
    unfolding f b using fold_latest [of rs r] by blast
qed

lemma sequence_option_Some:
  "sequence_option xs = Some ys \<longleftrightarrow> xs = map Some ys"
proof -
  have "list_all (\<lambda>x. x \<noteq> None) xs \<Longrightarrow> xs = map Some (map the xs)"
    by (induction xs) auto
  moreover have "list_all (\<lambda>x. x \<noteq> None) (map Some ys)"
    by (induction ys) auto
  ultimately show ?thesis
    by (auto simp: sequence_option_def comp_def)
qed

lemma sequence_option_None:
  "sequence_option xs = None \<longleftrightarrow> None \<in> set xs"
  by (auto simp: sequence_option_def list_all_iff)

lemma json_dumps_list_None:
  "json_dumps sk ea (VList vs) = None \<longleftrightarrow> None \<in> set (json_items sk ea vs)"
  by (cases "sequence_option (json_items sk ea vs)")
     (simp_all add: sequence_option_None [symmetric])

lemma json_dumps_dict_None:
  "json_dumps sk ea (VDict kvs) = None \<longleftrightarrow> None \<in> snd ` set (json_fields sk ea kvs)"
proof -
  define ordered where
    "ordered = (if sk then sort_key fst (json_fields sk ea kvs) else json_fields sk ea kvs)"
  have s: "set ordered = set (json_fields sk ea kvs)" by (simp add: ordered_def)
  have "json_dumps sk ea (VDict kvs) = None \<longleftrightarrow> sequence_option (map snd ordered) = None"
    by (cases "sequence_option (map snd ordered)") (simp_all add: Let_def ordered_def)
  also have "\<dots> \<longleftrightarrow> None \<in> snd ` set ordered"
    by (simp add: sequence_option_None)
  finally show ?thesis unfolding s .
qed

lemma json_dumps_flags:
  "(json_dumps sk ea v = None) = (json_dumps False False v = None)"
  "(None \<in> set (json_items sk ea vs)) = (None \<in> set (json_items False False vs))"
  "(None \<in> snd ` set (json_fields sk ea kvs)) = (None \<in> snd ` set (json_fields False False kvs))"
proof (induction sk ea v and sk ea vs and sk ea kvs rule: json_dumps_json_items_json_fields.induct)
  case (5 sk ea vs)
  then show ?case by (simp only: json_dumps_list_None)
next
  case (6 sk ea kvs)
  then show ?case by (simp only: json_dumps_dict_None)
qed auto

lemma case_texts_of_snapshot:
  assumes "json_dumps False False (VList (map VDict cases)) = Some snapshot"
  shows "\<exists>texts. case_texts cases = Some texts"
proof -
  have "None \<notin> set (json_items False False (map VDict cases))"
    using assms json_dumps_list_None [of False False "map VDict cases"] by simp
  moreover have "json_items sk ea (map VDict cs) = map (\<lambda>tc. json_dumps sk ea (VDict tc)) cs"
    for sk ea cs by (induction cs) simp_all
  ultimately have a: "None \<notin> set (map (\<lambda>tc. json_dumps False False (VDict tc)) cases)"
    by simp
  have "None \<notin> set (map (\<lambda>tc. json_dumps True True (VDict tc)) cases)"
  proof
    assume "None \<in> set (map (\<lambda>tc. json_dumps True True (VDict tc)) cases)"
    then obtain tc where "tc \<in> set cases" "json_dumps True True (VDict tc) = None" by auto
    then have "json_dumps False False (VDict tc) = None"
      using json_dumps_flags(1) [of True True "VDict tc"] by simp
    with \<open>tc \<in> set cases\<close> a show False by force
  qed
  then have "case_texts cases \<noteq> None"
    by (simp add: case_texts_def sequence_option_None)
  then show ?thesis by auto
qed


lemma add_version_first:
  assumes "VersionManager_add_version libs method us cases author st = Inr (r1, st1)"
  shows "\<exists>snapshot.
           json_dumps False False (VList (map VDict cases)) = Some snapshot \<and>
           version_rows st1 = version_rows st @
             [\<lparr>vr_id = version_rows_seq st + 1, vr_user_story = us,
               vr_version_number = avr_version_number r1, vr_author = author,
               vr_similarity = avr_similarity r1, vr_test_cases_json = snapshot\<rparr>] \<and>
           version_rows_seq st1 = version_rows_seq st + 1 \<and>
           avr_version_id r1 = version_rows_seq st + 1 \<and>
           avr_version_number r1 =
             (case latest_row st us of None \<Rightarrow> 1 | Some b \<Rightarrow> vr_version_number b + 1)"
proof -
  obtain latest where l: "get_latest_version_info libs st us = Inr latest"
    using assms by (cases "get_latest_version_info libs st us")
      (simp_all add: VersionManager_add_version_def)
  define n where "n = (case latest of Some (_, n, _, _) \<Rightarrow> n + 1 | None \<Rightarrow> (1::int))"
  have n: "n = (case latest_row st us of None \<Rightarrow> 1 | Some b \<Rightarrow> vr_version_number b + 1)"
    using l unfolding n_def
    by (auto simp: get_latest_version_info_def split: option.splits)
  show ?thesis
    using assms unfolding VersionManager_add_version_def l sum.case Let_def n_def [symmetric]
    by (auto simp: n split: sum.splits option.splits prod.splits if_splits)
qed


lemma latest_row_appended:
  assumes "vr_user_story row = us"
    and "vr_version_number row =
           (case latest_row st us of None \<Rightarrow> 1 | Some b \<Rightarrow> vr_version_number b + 1)"
  shows "latest_row (st\<lparr>version_rows := version_rows st @ [row], version_rows_seq := k\<rparr>) us
           = Some row"
proof -
  let ?st' = "st\<lparr>version_rows := version_rows st @ [row], version_rows_seq := k\<rparr>"
  let ?old = "filter (\<lambda>r. vr_user_story r = us) (version_rows st)"
  have f: "filter (\<lambda>r. vr_user_story r = us) (version_rows ?st') = ?old @ [row]"
    using assms(1) by simp
  then have "latest_row ?st' us \<noteq> None"
    by (simp add: latest_row_None)
  then obtain b where b: "latest_row ?st' us = Some b" by auto
  have mem: "b \<in> set (?old @ [row])" and mx: "vr_version_number row \<le> vr_version_number b"
    using latest_row_Some [OF b] unfolding f by simp_all
  have "b = row"
  proof (rule ccontr)
    assume "b \<noteq> row"
    then have old: "b \<in> set ?old" using mem by simp
    then have "latest_row st us \<noteq> None"
      by (auto simp: latest_row_None filter_empty_conv)
    then obtain b0 where b0: "latest_row st us = Some b0" by auto
    have "vr_version_number b \<le> vr_version_number b0"
      using latest_row_Some(2) [OF b0] old by blast
    moreover have "vr_version_number row = vr_version_number b0 + 1"
      using assms(2) b0 by simp
    ultimately show False using mx by simp
  qed
  then show ?thesis using b by simp
qed

lemma compute_similarity_identical:
  assumes texts: "case_texts cases = Some texts"
    and ratio: "sequence_ratio libs (join [CHR 0x0A] texts) (join [CHR 0x0A] texts) = 1"
    and emb: "embedding_similarity libs texts texts = None \<or>
              embedding_similarity libs texts texts = Some 1"
  shows "compute_similarity libs method cases cases = Inr 1"
  using emb by (auto simp: compute_similarity_def texts ratio Let_def)

lemma add_version_twice_rows:
  assumes first: "VersionManager_add_version libs method us cases author st = Inr (r1, st1)"
    and rt: "\<forall>snapshot. json_dumps False False (VList (map VDict cases)) = Some snapshot \<longrightarrow>
               loads libs snapshot = Some cases"
    and ratio: "\<forall>t. sequence_ratio libs t t = 1"
    and emb: "\<forall>ts. embedding_similarity libs ts ts = None \<or> embedding_similarity libs ts ts = Some 1"
    and hash: "list_all (\<lambda>c. hashable (dict_get c ''identifier'')) cases"
    and bound: "avr_version_number r1 < 2 ^ 63 - 1"
  shows "\<exists>r2 st2 row1 row2.
           VersionManager_add_version libs method us cases author2 st1 = Inr (r2, st2) \<and>
           avr_similarity r2 = 1 \<and>
           avr_version_number r2 = avr_version_number r1 + 1 \<and>
           version_rows st2 = version_rows st @ [row1, row2] \<and>
           vr_id row1 \<noteq> vr_id row2 \<and>
           vr_user_story row1 = us \<and> vr_user_story row2 = us \<and>
           vr_version_number row1 = avr_version_number r1 \<and>
           vr_version_number row2 = avr_version_number r1 + 1 \<and>
           vr_similarity row2 = 1"
proof -
  obtain snapshot where s:
    "json_dumps False False (VList (map VDict cases)) = Some snapshot"
    "version_rows st1 = version_rows st @
             [\<lparr>vr_id = version_rows_seq st + 1, vr_user_story = us,
               vr_version_number = avr_version_number r1, vr_author = author,
               vr_similarity = avr_similarity r1, vr_test_cases_json = snapshot\<rparr>]"
    "version_rows_seq st1 = version_rows_seq st + 1"
    "avr_version_number r1 =
             (case latest_row st us of None \<Rightarrow> 1 | Some b \<Rightarrow> vr_version_number b + 1)"
    using add_version_first [OF first] by blast
  define row1 where
    "row1 = \<lparr>vr_id = version_rows_seq st + 1, vr_user_story = us,
               vr_version_number = avr_version_number r1, vr_author = author,
               vr_similarity = avr_similarity r1, vr_test_cases_json = snapshot\<rparr>"
  have st1: "st1 = st\<lparr>version_rows := version_rows st @ [row1],
                      version_rows_seq := version_rows_seq st + 1\<rparr>"
    using s(2,3) by (simp add: row1_def)
  have lr: "latest_row st1 us = Some row1"
    unfolding st1 by (rule latest_row_appended) (simp_all add: row1_def s(4))
  have ld: "loads libs (vr_test_cases_json row1) = Some cases"
    using rt s(1) by (simp add: row1_def)
  have latest: "get_latest_version_info libs st1 us =
      Inr (Some (vr_id row1, vr_version_number row1, cases, vr_similarity row1))"
    by (simp add: get_latest_version_info_def lr ld)
  obtain texts where texts: "case_texts cases = Some texts"
    using case_texts_of_snapshot [OF s(1)] by blast
  have sim: "compute_similarity libs method cases cases = Inr 1"
    by (rule compute_similarity_identical [OF texts]) (simp_all add: ratio emb)
  obtain m where m: "by_identifier cases = Some m"
    using hash by (simp add: by_identifier_def)
  define row2 where
    "row2 = \<lparr>vr_id = version_rows_seq st1 + 1, vr_user_story = us,
             vr_version_number = avr_version_number r1 + 1, vr_author = author2,
             vr_similarity = 1, vr_test_cases_json = snapshot\<rparr>"
  define r2 where
    "r2 = \<lparr>avr_version_id = version_rows_seq st1 + 1,
           avr_version_number = avr_version_number r1 + 1,
           avr_similarity = 1,
           avr_added = map snd (filter (\<lambda>(key, c). map_of m key = None) m),
           avr_removed = map snd (filter (\<lambda>(key, c). map_of m key = None) m),
           avr_unchanged = map snd (filter (\<lambda>(key, c). map_of m key \<noteq> None) m)\<rparr>"
  have second: "VersionManager_add_version libs method us cases author2 st1 =
      Inr (r2, st1\<lparr>version_rows := version_rows st1 @ [row2],
                   version_rows_seq := version_rows_seq st1 + 1\<rparr>)"
    using bound
    by (simp add: VersionManager_add_version_def latest sim m s(1) Let_def row1_def row2_def r2_def
          del: json_dumps.simps)
  have rows: "version_rows (st1\<lparr>version_rows := version_rows st1 @ [row2],
                   version_rows_seq := version_rows_seq st1 + 1\<rparr>) = version_rows st @ [row1, row2]"
    by (simp add: st1)
  have ids: "vr_id row1 \<noteq> vr_id row2"
    by (simp add: row1_def row2_def s(3))
  show ?thesis
    apply (rule exI [of _ r2])
    apply (rule exI [of _ "st1\<lparr>version_rows := version_rows st1 @ [row2],
                   version_rows_seq := version_rows_seq st1 + 1\<rparr>"])
    apply (rule exI [of _ row1])
    apply (rule exI [of _ row2])
    using second rows ids by (simp add: r2_def row1_def row2_def)
qed


text \<open>
  Claim C8. When \<^verbatim>\<open>add_version\<close> has returned for a user story and is called again with
  the same list of test cases, the second call returns too, with similarity 1, and the
  table has two more rows for the story, with different ids and consecutive version
  numbers. The hypotheses say what the model leaves to the libraries and to the data
  model: \<^verbatim>\<open>json.loads\<close> gives back the cases from their snapshot; the similarity of a
  text with itself is 1, the largest value, for difflib's ratio, and for the embedding
  method when it does not raise; the identifiers of the cases can be dictionary keys;
  and the first version number is not the largest 64-bit integer.
\<close>

theorem add_version_twice_identical:
  assumes "VersionManager_add_version libs method user_story test_cases author st = Inr (r1, st1)"
    and "\<forall>snapshot. json_dumps False False (VList (map VDict test_cases)) = Some snapshot \<longrightarrow>
           loads libs snapshot = Some test_cases"
    and "\<forall>t. sequence_ratio libs t t = 1"
    and "\<forall>ts. embedding_similarity libs ts ts = None \<or> embedding_similarity libs ts ts = Some 1"
    and "list_all (\<lambda>c. hashable (dict_get c ''identifier'')) test_cases"
    and "avr_version_number r1 < 2 ^ 63 - 1"
  shows "\<exists>r2 st2 row1 row2.
           VersionManager_add_version libs method user_story test_cases author2 st1 = Inr (r2, st2) \<and>
           avr_similarity r2 = 1 \<and>
           avr_version_number r2 = avr_version_number r1 + 1 \<and>
           version_rows st2 = version_rows st @ [row1, row2] \<and>
           vr_id row1 \<noteq> vr_id row2 \<and>
           vr_user_story row1 = user_story \<and> vr_user_story row2 = user_story \<and>
           vr_version_number row1 = avr_version_number r1 \<and>
           vr_version_number row2 = avr_version_number r1 + 1 \<and>
           vr_similarity row2 = 1"
  using assms by (rule add_version_twice_rows)

theorem add_version_twice_identical_witness:
  "VersionManager_add_version difflib_only ''sequence'' ''US-1'' login_cases ''alice''
       empty_version_store = Inr (first_result, one_version_store)
   \<and> (\<exists>r2 st2 row1 row2.
         VersionManager_add_version difflib_only ''sequence'' ''US-1'' login_cases ''bob''
           one_version_store = Inr (r2, st2) \<and>
         avr_similarity r2 = 1 \<and>
         avr_version_number r2 = 2 \<and>
         version_rows st2 = [row1, row2] \<and>
         vr_id row1 \<noteq> vr_id row2 \<and>
         vr_version_number row1 = 1 \<and> vr_version_number row2 = 2)"
proof -
  have d: "json_dumps False False (VList (map VDict login_cases)) = Some login_snapshot"
    by code_simp
  have first: "VersionManager_add_version difflib_only ''sequence'' ''US-1'' login_cases ''alice''
       empty_version_store = Inr (first_result, one_version_store)"
    by (simp add: VersionManager_add_version_def get_latest_version_info_def latest_row_def
          empty_version_store_def d first_result_def one_version_store_def
        del: json_dumps.simps)
  have rt: "\<forall>snapshot. json_dumps False False (VList (map VDict login_cases)) = Some snapshot \<longrightarrow>
           loads difflib_only snapshot = Some login_cases"
    unfolding d by (simp add: difflib_only_def)
  have ratio: "\<forall>t. sequence_ratio difflib_only t t = 1"
    by (simp add: difflib_only_def)
  have emb: "\<forall>ts. embedding_similarity difflib_only ts ts = None \<or>
                  embedding_similarity difflib_only ts ts = Some 1"
    by (simp add: difflib_only_def)
  have hash: "list_all (\<lambda>c. hashable (dict_get c ''identifier'')) login_cases"
    by (simp add: login_cases_def hashable_def dict_get_def)
  have bound: "avr_version_number first_result < 2 ^ 63 - 1"
    by (simp add: first_result_def)
  have n: "avr_version_number first_result = 1" "version_rows empty_version_store = []"
    by (simp_all add: first_result_def empty_version_store_def)
  show ?thesis
    using first
      add_version_twice_identical [OF first rt ratio emb hash bound, of "''bob''"]
    unfolding n by auto
qed

end
